theory Spec2Isabelle
  imports Main "HOL-Library.Char_ord" "HOL-Library.List_Lexorder"
begin

section \<open>Strings\<close>

text \<open>
  A Python \<open>str\<close> is modelled as a \<open>string\<close> whose characters are code points below 256
  (one \<open>char\<close> per code point, so \<open>length\<close> is Python's \<open>len\<close>). Text with code points
  above 255 is outside the model. Python compares strings by code point, which is the
  lexicographic order on \<open>char list\<close> used by \<open>sort\<close> below.
\<close>

definition ascii_upper :: string where
  "ascii_upper = ''ABCDEFGHIJKLMNOPQRSTUVWXYZ''"

definition ascii_lower :: string where
  "ascii_lower = ''abcdefghijklmnopqrstuvwxyz''"

definition lower_char :: "char \<Rightarrow> char" where
  \<comment> \<open>\<open>str.lower\<close> on one code point below 256: A-Z, and the Latin-1 capitals
      0xC0-0xDE without the multiplication sign 0xD7, move up by 32.\<close>
  "lower_char c =
     (case map_of (zip ascii_upper ascii_lower) c of
        Some d \<Rightarrow> d
      | None \<Rightarrow>
          (let n = (of_char c :: nat)
           in if 192 \<le> n \<and> n \<le> 222 \<and> n \<noteq> 215 then char_of (n + 32) else c))"

definition lower :: "string \<Rightarrow> string" where
  "lower s = map lower_char s"

fun startswith :: "string \<Rightarrow> string \<Rightarrow> bool" where
  "startswith s [] = True"
| "startswith [] (p # ps) = False"
| "startswith (c # cs) (p # ps) = (c = p \<and> startswith cs ps)"

fun contains :: "string \<Rightarrow> string \<Rightarrow> bool" where
  \<comment> \<open>\<open>contains s t\<close> is Python's \<open>t in s\<close>.\<close>
  "contains [] t = (t = [])"
| "contains (c # cs) t = (startswith (c # cs) t \<or> contains cs t)"

definition endswith :: "string \<Rightarrow> string \<Rightarrow> bool" where
  "endswith s t = (length t \<le> length s \<and> drop (length s - length t) s = t)"

definition digit_char :: "nat \<Rightarrow> char" where
  "digit_char d = ''0123456789'' ! d"

fun str_nat :: "nat \<Rightarrow> string" where
  \<comment> \<open>\<open>str(n)\<close> and \<open>f"{n}"\<close> for a non-negative integer.\<close>
  "str_nat n = (if n < 10 then [digit_char n] else str_nat (n div 10) @ [digit_char (n mod 10)])"

declare str_nat.simps [simp del]

definition join :: "string \<Rightarrow> string list \<Rightarrow> string" where
  \<comment> \<open>\<open>sep.join(xs)\<close>\<close>
  "join sep xs = (case xs of [] \<Rightarrow> [] | y # ys \<Rightarrow> y @ concat (map (\<lambda>z. sep @ z) ys))"

section \<open>The file system under the repository root\<close>

text \<open>
  The tree below \<open>REPO_ROOT\<close>. A file holds its text as \<open>read_text(encoding="utf-8")\<close>
  returns it, or \<open>None\<close> when its bytes do not decode. A path is the list of its
  components below the root; \<open>path_str\<close> is \<open>str(REPO_ROOT / ...)\<close>.
\<close>

datatype node = File "string option" | Dir "(string \<times> node) list"

type_synonym path = "string list"

lemma map_of_size_node:
  "map_of es c = Some n \<Longrightarrow> size n < Suc (size_list (size_prod (\<lambda>_. 0) size) es)"
  by (induction es) (auto split: if_splits)

function lookup :: "node \<Rightarrow> path \<Rightarrow> node option" where
  "lookup n [] = Some n"
| "lookup (File t) (c # cs) = None"
| "lookup (Dir es) (c # cs) = (case map_of es c of None \<Rightarrow> None | Some n \<Rightarrow> lookup n cs)"
  by pat_completeness auto
termination
  by (relation "measure (\<lambda>(n, p). size n)") (auto dest: map_of_size_node)

definition path_exists :: "node \<Rightarrow> path \<Rightarrow> bool" where
  "path_exists root p = (lookup root p \<noteq> None)"

definition path_str :: "string \<Rightarrow> path \<Rightarrow> string" where
  "path_str repo_root p = repo_root @ concat (map (\<lambda>c. ''/'' @ c) p)"

section \<open>Exceptions and the state of a run\<close>

datatype exn =
    SystemExit string          \<comment> \<open>\<open>raise SystemExit(msg)\<close>: the message goes to stderr, exit code 1\<close>
  | SystemExitCode int         \<comment> \<open>\<open>raise SystemExit(n)\<close>\<close>
  | DatabaseError string       \<comment> \<open>\<open>sqlite3.DatabaseError\<close> and its subclasses\<close>
  | OtherException string      \<comment> \<open>any other exception\<close>

fun exit_code :: "exn + 'a \<Rightarrow> int" where
  "exit_code (Inr v) = 0"
| "exit_code (Inl (SystemExitCode n)) = n"
| "exit_code (Inl e) = 1"

section \<open>guardian.py: migration discovery\<close>

definition candidates :: "path list" where
  "candidates = [[''migrations''], [''db'', ''migrations''], [''src'', ''db'', ''migrations'']]"

definition fnmatch_sql :: "string \<Rightarrow> bool" where
  \<comment> \<open>\<open>glob\<close> with the pattern \<open>*.sql\<close>: the name ends in \<open>.sql\<close> and, as for every pattern
      that does not start with a dot, does not start with a dot.\<close>
  "fnmatch_sql nm = (endswith nm ''.sql'' \<and> \<not> startswith nm ''.'')"

definition glob_sql :: "node \<Rightarrow> path \<Rightarrow> path list" where
  \<comment> \<open>\<open>glob.glob(str(candidate / "*.sql"))\<close>, in directory order.\<close>
  "glob_sql root cand =
     (case lookup root cand of
        Some (Dir es) \<Rightarrow> map (\<lambda>nm. cand @ [nm]) (filter fnmatch_sql (map fst es))
      | _ \<Rightarrow> [])"

definition sorted_paths :: "string \<Rightarrow> path list \<Rightarrow> path list" where
  \<comment> \<open>\<open>sorted\<close> on the path strings.\<close>
  "sorted_paths repo_root ps = sort_key (path_str repo_root) ps"

fun collect_sql :: "string \<Rightarrow> node \<Rightarrow> path list \<Rightarrow> path list \<Rightarrow> path list" where
  \<comment> \<open>The loop over the candidates, \<open>sql_files\<close> as accumulator.\<close>
  "collect_sql repo_root root [] sql_files = sql_files"
| "collect_sql repo_root root (candidate # rest) sql_files =
     collect_sql repo_root root rest
       (if path_exists root candidate
        then sql_files @ sorted_paths repo_root (glob_sql root candidate)
        else sql_files)"

definition not_found_msg :: string where
  "not_found_msg =
     ''No .sql migrations found (looked in migrations/, db/migrations/, src/db/migrations/).''"

definition find_sql_migrations :: "string \<Rightarrow> node \<Rightarrow> exn + path list" where
  "find_sql_migrations repo_root root =
     (let sql_files = collect_sql repo_root root candidates []
      in if sql_files = [] then Inl (SystemExit not_found_msg) else Inr sql_files)"

subsection \<open>Migration discovery as the specification words it\<close>

definition first_nonempty_sql :: "string \<Rightarrow> node \<Rightarrow> exn + path list" where
  \<comment> \<open>The specification's contract: the sorted files of the first candidate directory
      that contains any, and NotFound when none does.\<close>
  "first_nonempty_sql repo_root root =
     (case filter (\<lambda>c. glob_sql root c \<noteq> []) candidates of
        [] \<Rightarrow> Inl (SystemExit not_found_msg)
      | c # _ \<Rightarrow> Inr (sorted_paths repo_root (glob_sql root c)))"

definition two_dirs_tree :: node where
  "two_dirs_tree =
     Dir [(''migrations'', Dir [(''002_b.sql'', File (Some [])), (''001_a.sql'', File (Some []))]),
          (''db'', Dir [(''migrations'', Dir [(''000_c.sql'', File (Some []))])])]"

section \<open>guardian.py: the database session\<close>

text \<open>
  SQLite is not part of the repository: the engine is a parameter. \<open>connect\<close> is the
  fresh in-memory database, \<open>executescript\<close> applies a script (or raises, with the
  exception's text), \<open>execute\<close> runs one statement with its parameters and
  \<open>trigger_rows\<close> answers the query on \<open>sqlite_master\<close> for the triggers of a table
  (name and, possibly NULL, SQL text of each).
\<close>

datatype sqlval = SqlText string | SqlInt int | SqlNull

datatype exec_result =
    Done                         \<comment> \<open>the statement executed\<close>
  | RaisesDatabaseError string   \<comment> \<open>it raised \<open>sqlite3.DatabaseError\<close> or a subclass\<close>
  | RaisesOther string           \<comment> \<open>it raised another exception\<close>

record 'db engine =
  connect :: 'db
  executescript :: "'db \<Rightarrow> string \<Rightarrow> string + 'db"
  execute :: "'db \<Rightarrow> string \<Rightarrow> sqlval list \<Rightarrow> exec_result \<times> 'db"
  trigger_rows :: "'db \<Rightarrow> string \<Rightarrow> (string \<times> string option) list"

text \<open>
  The state a run threads through: the database behind \<open>conn\<close>, the lines printed so far
  and, as a record of what reached the engine, the statements passed to \<open>conn.execute\<close>.
\<close>

record 'db world =
  conn_db :: 'db
  stdout :: "string list"
  executed :: "(string \<times> sqlval list) list"

type_synonym ('db, 'a) prog = "'db world \<Rightarrow> (exn + 'a) \<times> 'db world"

definition seq :: "('db, 'a) prog \<Rightarrow> ('a \<Rightarrow> ('db, 'b) prog) \<Rightarrow> ('db, 'b) prog" where
  \<comment> \<open>One statement after another: an exception of the first skips the second.\<close>
  "seq m f w = (case m w of (Inl e, w') \<Rightarrow> (Inl e, w') | (Inr v, w') \<Rightarrow> f v w')"

definition print :: "string \<Rightarrow> ('db, unit) prog" where
  "print line w = (Inr (), w\<lparr>stdout := stdout w @ [line]\<rparr>)"

definition raise :: "exn \<Rightarrow> ('db, 'a) prog" where
  "raise e w = (Inl e, w)"

definition conn_execute :: "'db engine \<Rightarrow> string \<Rightarrow> sqlval list \<Rightarrow> ('db, unit) prog" where
  "conn_execute eng sql params w =
     (case execute eng (conn_db w) sql params of
        (r, db') \<Rightarrow>
          (let w' = w\<lparr>conn_db := db', executed := executed w @ [(sql, params)]\<rparr>
           in case r of
                Done \<Rightarrow> (Inr (), w')
              | RaisesDatabaseError m \<Rightarrow> (Inl (DatabaseError m), w')
              | RaisesOther m \<Rightarrow> (Inl (OtherException m), w')))"

definition read_file :: "node \<Rightarrow> path \<Rightarrow> exn + string" where
  \<comment> \<open>\<open>open(...).read()\<close> and \<open>read_text\<close>, with UTF-8 decoding.\<close>
  "read_file root p =
     (case lookup root p of
        None \<Rightarrow> Inl (OtherException ''FileNotFoundError'')
      | Some (Dir es) \<Rightarrow> Inl (OtherException ''IsADirectoryError'')
      | Some (File None) \<Rightarrow> Inl (OtherException ''UnicodeDecodeError'')
      | Some (File (Some text)) \<Rightarrow> Inr text)"

fun apply_migrations :: "'db engine \<Rightarrow> string \<Rightarrow> node \<Rightarrow> path list \<Rightarrow> ('db, unit) prog" where
  "apply_migrations eng repo_root root [] w = (Inr (), w)"
| "apply_migrations eng repo_root root (sql_file # rest) w =
     (case read_file root sql_file of
        Inl e \<Rightarrow> (Inl e, w)
      | Inr sql \<Rightarrow>
          (case executescript eng (conn_db w) sql of
             Inl exc \<Rightarrow>
               (Inl (SystemExit (''Failed applying migration '' @ path_str repo_root sql_file
                                 @ '': '' @ exc)), w)
           | Inr db' \<Rightarrow> apply_migrations eng repo_root root rest (w\<lparr>conn_db := db'\<rparr>)))"

subsection \<open>The Immutability Verifier\<close>

definition not_immutable_msg :: "string \<Rightarrow> string" where
  "not_immutable_msg table =
     ''[FAIL] '' @ table
     @ '' is not DB-immutable. Missing triggers blocking UPDATE/DELETE with RAISE/ABORT.''"

definition immutable_ok_msg :: "string \<Rightarrow> string" where
  "immutable_ok_msg table = ''[OK] '' @ table @ '' appears DB-immutable (triggers present).''"

definition sql_blob_of :: "(string \<times> string option) list \<Rightarrow> string" where
  \<comment> \<open>\<open>"\n".join((trigger[1] or "") for trigger in triggers).lower()\<close>\<close>
  "sql_blob_of triggers =
     lower (join [CHR 0x0A] (map (\<lambda>trigger. case snd trigger of None \<Rightarrow> [] | Some sql \<Rightarrow> sql)
                               triggers))"

definition require_immutable_table :: "'db engine \<Rightarrow> string \<Rightarrow> ('db, unit) prog" where
  "require_immutable_table eng table w =
     (let triggers = trigger_rows eng (conn_db w) table;
          sql_blob = sql_blob_of triggers;
          has_update = contains sql_blob ''update'';
          has_delete = contains sql_blob ''delete'';
          has_abort = (contains sql_blob ''raise'' \<or> contains sql_blob ''abort'')
      in if \<not> (has_update \<and> has_delete \<and> has_abort)
         then raise (SystemExit (not_immutable_msg table)) w
         else print (immutable_ok_msg table) w)"

subsection \<open>The Seeder\<close>

definition sql_insert_user :: string where
  "sql_insert_user = ''INSERT INTO users (user_id, created_at) VALUES (?, ?)''"

definition sql_insert_agent :: string where
  "sql_insert_agent =
     ''INSERT INTO agents (agent_id, user_id, status, created_at, updated_at) VALUES (?, ?, ?, ?, ?)''"

definition sql_lines :: "string list \<Rightarrow> string" where
  \<comment> \<open>A triple-quoted statement: a line break, then each line indented by eight blanks
      and ended by a line break, then the closing line's eight blanks.\<close>
  "sql_lines ls =
     [CHR 0x0A] @ concat (map (\<lambda>l. replicate 8 CHR '' '' @ l @ [CHR 0x0A]) ls)
     @ replicate 8 CHR '' ''"

definition sql_insert_event :: string where
  "sql_insert_event = sql_lines
     [''INSERT INTO events ('', ''  event_id,'', ''  agent_id,'', ''  user_id,'', ''  type,'',
      ''  payload_json,'', ''  occurred_at,'', ''  created_at,'', ''  hash,'', ''  prev_hash'',
      '') VALUES (?, ?, ?, ?, ?, ?, ?, ?, ?)'']"

definition sql_insert_receipt :: string where
  "sql_insert_receipt = sql_lines
     [''INSERT INTO receipts ('', ''  receipt_id,'', ''  agent_id,'', ''  user_id,'', ''  source,'',
      ''  event_id,'', ''  external_ref,'', ''  what_happened,'', ''  why_changed,'',
      ''  what_happens_next,'', ''  occurred_at,'', ''  created_at'',
      '') VALUES (?, ?, ?, ?, ?, ?, ?, ?, ?, ?, ?)'']"

definition seed_actor :: "'db engine \<Rightarrow> nat \<Rightarrow> ('db, string \<times> string \<times> nat) prog" where
  \<comment> \<open>\<open>now\<close> is \<open>int(time.time())\<close>, read by the caller of the model.\<close>
  "seed_actor eng now =
     (let user_id = ''user_guardian_'' @ str_nat now;
          agent_id = ''agent_guardian_'' @ str_nat now
      in seq (conn_execute eng sql_insert_user [SqlText user_id, SqlInt (int now)]) (\<lambda>_.
         seq (conn_execute eng sql_insert_agent
                [SqlText agent_id, SqlText user_id, SqlText ''active'', SqlInt (int now),
                 SqlInt (int now)]) (\<lambda>_.
         Pair (Inr (user_id, agent_id, now)))))"

definition insert_event :: "'db engine \<Rightarrow> string \<Rightarrow> string \<Rightarrow> nat \<Rightarrow> ('db, string) prog" where
  "insert_event eng user_id agent_id now =
     (let event_id = ''evt_guardian_'' @ str_nat now
      in seq (conn_execute eng sql_insert_event
                [SqlText event_id, SqlText agent_id, SqlText user_id, SqlText ''kernel.guardian'',
                 SqlText ''{}'', SqlInt (int now), SqlInt (int now), SqlText ''hash_guardian'',
                 SqlNull]) (\<lambda>_.
         Pair (Inr event_id)))"

definition insert_receipt ::
  "'db engine \<Rightarrow> string \<Rightarrow> string \<Rightarrow> string \<Rightarrow> nat \<Rightarrow> ('db, string) prog" where
  "insert_receipt eng user_id agent_id event_id now =
     (let receipt_id = ''rcpt_guardian_'' @ str_nat now
      in seq (conn_execute eng sql_insert_receipt
                [SqlText receipt_id, SqlText agent_id, SqlText user_id, SqlText ''policy'',
                 SqlText event_id, SqlText ''guardian'', SqlText ''Guardian test insert.'',
                 SqlText ''guardian'', SqlText ''Guardian will attempt mutation.'',
                 SqlInt (int now), SqlInt (int now)]) (\<lambda>_.
         Pair (Inr receipt_id)))"

subsection \<open>The Write-Attempt Prover\<close>

definition blocked_msg :: "string \<Rightarrow> string" where
  "blocked_msg label = ''[OK] '' @ label @ '' blocked as expected.''"

definition allowed_msg :: "string \<Rightarrow> string" where
  "allowed_msg label = ''[FAIL] '' @ label @ '' was allowed; table is not append-only.''"

definition assert_blocked ::
  "'db engine \<Rightarrow> string \<Rightarrow> sqlval list \<Rightarrow> string \<Rightarrow> ('db, unit) prog" where
  \<comment> \<open>\<open>try: conn.execute(sql, params)\<close>, \<open>except sqlite3.DatabaseError\<close>: print and
      return; any other exception propagates; no exception: \<open>raise SystemExit\<close>.\<close>
  "assert_blocked eng sql params label w =
     (case conn_execute eng sql params w of
        (Inl (DatabaseError m), w') \<Rightarrow> print (blocked_msg label) w'
      | (Inl e, w') \<Rightarrow> (Inl e, w')
      | (Inr u, w') \<Rightarrow> raise (SystemExit (allowed_msg label)) w')"

definition sql_update_self :: "string \<Rightarrow> string \<Rightarrow> string \<Rightarrow> string" where
  "sql_update_self table update_col pk_col =
     ''UPDATE '' @ table @ '' SET '' @ update_col @ '' = '' @ update_col @ '' WHERE '' @ pk_col
     @ '' = ?''"

definition sql_delete_by_pk :: "string \<Rightarrow> string \<Rightarrow> string" where
  "sql_delete_by_pk table pk_col = ''DELETE FROM '' @ table @ '' WHERE '' @ pk_col @ '' = ?''"

definition prove_immutable_by_writes ::
  "'db engine \<Rightarrow> string \<Rightarrow> string \<Rightarrow> string \<Rightarrow> string \<Rightarrow> ('db, unit) prog" where
  "prove_immutable_by_writes eng table pk_col pk_value update_col =
     seq (assert_blocked eng (sql_update_self table update_col pk_col) [SqlText pk_value]
            (''UPDATE on '' @ table)) (\<lambda>_.
     assert_blocked eng (sql_delete_by_pk table pk_col) [SqlText pk_value]
       (''DELETE on '' @ table))"

section \<open>Regular expressions\<close>

text \<open>
  The part of Python's \<open>re\<close> that the two scripts use, as a backtracking matcher. A
  pattern is matched at a position of the subject; \<open>ends\<close> lists the positions where a
  match started there can end, in the order in which backtracking tries them (the left
  alternative first, a greedy repetition as long as possible first), so its head is the
  match \<open>re\<close> reports. \<open>ic\<close> is \<open>re.IGNORECASE\<close>; it bears on literal characters only.
\<close>

definition is_space :: "char \<Rightarrow> bool" where
  \<comment> \<open>\<open>\s\<close> on a \<open>str\<close> pattern: the code points below 256 with \<open>str.isspace\<close>.\<close>
  "is_space c =
     (let n = (of_char c :: nat)
      in (9 \<le> n \<and> n \<le> 13) \<or> (28 \<le> n \<and> n \<le> 32) \<or> n = 133 \<or> n = 160)"

definition is_word :: "char \<Rightarrow> bool" where
  \<comment> \<open>\<open>\w\<close> on a \<open>str\<close> pattern: the underscore and the code points below 256 with
      \<open>str.isalnum\<close>.\<close>
  "is_word c =
     (let n = (of_char c :: nat)
      in (48 \<le> n \<and> n \<le> 57) \<or> (65 \<le> n \<and> n \<le> 90) \<or> n = 95 \<or> (97 \<le> n \<and> n \<le> 122)
         \<or> n = 170 \<or> n = 178 \<or> n = 179 \<or> n = 181 \<or> n = 185 \<or> n = 186
         \<or> n = 188 \<or> n = 189 \<or> n = 190
         \<or> (192 \<le> n \<and> n \<noteq> 215 \<and> n \<noteq> 247))"

datatype rx =
    Lit char            \<comment> \<open>a literal character\<close>
  | NotIn "char list"   \<comment> \<open>\<open>[^...]\<close>\<close>
  | AnyChar             \<comment> \<open>\<open>.\<close>: any character but the line feed\<close>
  | Space               \<comment> \<open>\<open>\s\<close>\<close>
  | WordB               \<comment> \<open>\<open>\b\<close>\<close>
  | Eps                 \<comment> \<open>the empty pattern\<close>
  | Seq rx rx
  | Alt rx rx
  | Star rx             \<comment> \<open>greedy \<open>*\<close>\<close>
  | Group rx            \<comment> \<open>\<open>(...)\<close> and \<open>(?:...)\<close>\<close>

definition rx_plus :: "rx \<Rightarrow> rx" where
  \<comment> \<open>greedy \<open>+\<close>\<close>
  "rx_plus r = Seq r (Star r)"

definition lits :: "string \<Rightarrow> rx" where
  \<comment> \<open>the characters of a string, each a literal\<close>
  "lits s = foldr (\<lambda>c r. Seq (Lit c) r) s Eps"

definition seqs :: "rx list \<Rightarrow> rx" where
  "seqs rs = foldr Seq rs Eps"

text \<open>
  A cursor is a position in the subject: its offset, the character before it (for
  \<open>\b\<close>) and the text from it on.
\<close>

datatype cursor = Cursor (cur_pos: nat) (cur_before: "char option") (cur_rest: string)

fun take_if :: "(char \<Rightarrow> bool) \<Rightarrow> cursor \<Rightarrow> cursor list" where
  \<comment> \<open>one character, if there is one and it satisfies the test\<close>
  "take_if P (Cursor i p []) = []"
| "take_if P (Cursor i p (d # ds)) = (if P d then [Cursor (Suc i) (Some d) ds] else [])"

definition word_boundary :: "cursor \<Rightarrow> bool" where
  "word_boundary cur =
     ((case cur_before cur of None \<Rightarrow> False | Some c \<Rightarrow> is_word c)
      \<noteq> (case cur_rest cur of [] \<Rightarrow> False | d # ds \<Rightarrow> is_word d))"

function (sequential) ends :: "bool \<Rightarrow> rx \<Rightarrow> cursor \<Rightarrow> cursor list" where
  "ends ic (Lit c) cur = take_if (\<lambda>d. if ic then lower_char d = lower_char c else d = c) cur"
| "ends ic (NotIn cs) cur = take_if (\<lambda>d. d \<notin> set cs) cur"
| "ends ic AnyChar cur = take_if (\<lambda>d. d \<noteq> CHR 0x0A) cur"
| "ends ic Space cur = take_if is_space cur"
| "ends ic WordB cur = (if word_boundary cur then [cur] else [])"
| "ends ic Eps cur = [cur]"
| "ends ic (Seq r1 r2) cur = concat (map (ends ic r2) (ends ic r1 cur))"
| "ends ic (Alt r1 r2) cur = ends ic r1 cur @ ends ic r2 cur"
| "ends ic (Star r) cur =
     concat (map (\<lambda>c'. if length (cur_rest c') < length (cur_rest cur)
                        then ends ic (Star r) c' else [])
               (ends ic r cur))
     @ [cur]"
| "ends ic (Group r) cur = ends ic r cur"
  by pat_completeness auto
termination
  by (relation "measures [\<lambda>(ic, r, cur). size r, \<lambda>(ic, r, cur). length (cur_rest cur)]") auto

declare ends.simps [simp del]

lemma take_if_shorter:
  "take_if P cur = c' # cs \<Longrightarrow> length (cur_rest c') < length (cur_rest cur)"
  by (cases cur; cases "cur_rest cur") (auto split: if_splits)

function finditer_from :: "bool \<Rightarrow> rx \<Rightarrow> cursor \<Rightarrow> (nat \<times> nat) list" where
  \<comment> \<open>The matches from a cursor on, left to right and not overlapping, each with its
      start and its end. After a match the scan goes on from its end (from one character
      on after an empty match; no pattern of the scripts matches the empty string).\<close>
  "finditer_from ic r cur =
     (case ends ic r cur of
        [] \<Rightarrow>
          (case take_if (\<lambda>d. True) cur of
             [] \<Rightarrow> []
           | c' # cs \<Rightarrow> finditer_from ic r c')
      | e # es \<Rightarrow>
          (cur_pos cur, cur_pos e)
          # (if length (cur_rest e) < length (cur_rest cur) then finditer_from ic r e
             else (case take_if (\<lambda>d. True) cur of
                     [] \<Rightarrow> []
                   | c' # cs \<Rightarrow> finditer_from ic r c')))"
  by pat_completeness auto
termination
  by (relation "measure (\<lambda>(ic, r, cur). length (cur_rest cur))") (auto dest: take_if_shorter)

declare finditer_from.simps [simp del]

definition finditer :: "bool \<Rightarrow> rx \<Rightarrow> string \<Rightarrow> (nat \<times> nat) list" where
  "finditer ic r s = finditer_from ic r (Cursor 0 None s)"


definition slice :: "string \<Rightarrow> nat \<Rightarrow> nat \<Rightarrow> string" where
  \<comment> \<open>\<open>s[a:b]\<close> for non-negative \<open>a\<close> and \<open>b\<close>\<close>
  "slice s a b = take (b - a) (drop a s)"

fun sub_from :: "string \<Rightarrow> string \<Rightarrow> nat \<Rightarrow> (nat \<times> nat) list \<Rightarrow> string" where
  "sub_from repl s pos [] = drop pos s"
| "sub_from repl s pos ((ms, me) # rest) = slice s pos ms @ repl @ sub_from repl s me rest"

definition sub :: "bool \<Rightarrow> rx \<Rightarrow> string \<Rightarrow> string \<Rightarrow> string" where
  \<comment> \<open>\<open>re.sub(pattern, repl, s)\<close> for a replacement without group references\<close>
  "sub ic r repl s = sub_from repl s 0 (finditer ic r s)"

section \<open>guardian.py: the Ghost-State Scanner and the main pipeline\<close>

definition suspicious_tables :: "string list" where
  "suspicious_tables = [''budgets'', ''policies'', ''agents'', ''users'', ''agent_tokens'']"

definition mutation_rx :: "string \<Rightarrow> rx" where
  \<comment> \<open>\<open>(insert\s+into\s+{table}|update\s+{table}|delete\s+from\s+{table})\<close>, for a
      table name of letters, digits and underscores\<close>
  "mutation_rx table =
     Group (Alt (seqs [lits ''insert'', rx_plus Space, lits ''into'', rx_plus Space, lits table])
           (Alt (seqs [lits ''update'', rx_plus Space, lits table])
                (seqs [lits ''delete'', rx_plus Space, lits ''from'', rx_plus Space, lits table])))"

definition resolve_kernel_path :: "node \<Rightarrow> path" where
  "resolve_kernel_path root =
     (let kernel_path = [''kernel.ts'']
      in if \<not> path_exists root kernel_path
         then (let alt = [''src'', ''kernel.ts'']
               in if path_exists root alt then alt
                  else (let alt = [''src'', ''kernel'', ''kernel.ts'']
                        in if path_exists root alt then alt else kernel_path))
         else kernel_path)"

definition window :: "string \<Rightarrow> nat \<times> nat \<Rightarrow> string" where
  "window text m =
     (let start = nat (max 0 (int (fst m) - 300));
          endp = min (length text) (snd m + 300)
      in lower (slice text start endp))"

definition unlogged :: "string \<Rightarrow> nat \<times> nat \<Rightarrow> bool" where
  \<comment> \<open>the condition under which a match becomes a hit\<close>
  "unlogged text m =
     (\<not> contains (window text m) ''event'' \<and> \<not> contains (window text m) ''receipt''
      \<and> \<not> contains (window text m) ''append'')"

definition table_hits :: "string \<Rightarrow> string \<Rightarrow> (string \<times> string \<times> nat) list" where
  \<comment> \<open>the inner loop: the hits of one table, as (table, \<open>match.group(0)\<close>,
      \<open>match.start()\<close>)\<close>
  "table_hits text table =
     map (\<lambda>m. (table, slice text (fst m) (snd m), fst m))
       (filter (unlogged text) (finditer True (mutation_rx table) text))"

definition ghost_hits :: "string \<Rightarrow> (string \<times> string \<times> nat) list" where
  "ghost_hits text = concat (map (table_hits text) suspicious_tables)"

definition hit_line :: "string \<times> string \<times> nat \<Rightarrow> string" where
  "hit_line h =
     (case h of (table, op, pos) \<Rightarrow>
        ''  - '' @ op @ '' on '' @ table @ '' at char '' @ str_nat pos)"

fun print_all :: "string list \<Rightarrow> ('db, unit) prog" where
  "print_all [] w = (Inr (), w)"
| "print_all (l # ls) w = seq (print l) (\<lambda>_. print_all ls) w"

definition ghost_warn_msg :: string where
  "ghost_warn_msg = ''[WARN] kernel.ts not found for ghost-state scan; skipping.''"

definition ghost_fail_header :: string where
  "ghost_fail_header = ''[FAIL] Possible ghost-state mutations in kernel.ts (heuristic):''"

definition ghost_fail_msg :: string where
  "ghost_fail_msg =
     ''Ghost-state heuristic failed. Ensure mutations emit event+receipt or are derived.''"

definition ghost_ok_msg :: string where
  "ghost_ok_msg = ''[OK] Ghost-state heuristic passed (no obvious unlogged mutations).''"

definition scan_for_ghost_state :: "node \<Rightarrow> ('db, unit) prog" where
  "scan_for_ghost_state root =
     (let kernel_path = resolve_kernel_path root
      in if \<not> path_exists root kernel_path
         then print ghost_warn_msg
         else (case read_file root kernel_path of
                 Inl e \<Rightarrow> raise e
               | Inr text \<Rightarrow>
                   (let hits = ghost_hits text
                    in if hits \<noteq> []
                       then seq (print ghost_fail_header) (\<lambda>_.
                            seq (print_all (map hit_line (take 25 hits))) (\<lambda>_.
                            raise (SystemExit ghost_fail_msg)))
                       else print ghost_ok_msg)))"

definition banner :: string where
  "banner = ''== Bloom Kernel Guardian ==''"

definition passed_msg :: string where
  "passed_msg = ''[OK] Guardian checks passed.''"

definition lift :: "exn + 'a \<Rightarrow> ('db, 'a) prog" where
  "lift r w = (r, w)"

definition main :: "'db engine \<Rightarrow> string \<Rightarrow> node \<Rightarrow> nat \<Rightarrow> ('db, unit) prog" where
  "main eng repo_root root now =
     seq (print banner) (\<lambda>_.
     seq (lift (find_sql_migrations repo_root root)) (\<lambda>sql_files.
     seq (conn_execute eng ''PRAGMA foreign_keys = ON'' []) (\<lambda>_.
     seq (apply_migrations eng repo_root root sql_files) (\<lambda>_.
     seq (require_immutable_table eng ''events'') (\<lambda>_.
     seq (require_immutable_table eng ''receipts'') (\<lambda>_.
     seq (seed_actor eng now) (\<lambda>(user_id, agent_id, now).
     seq (insert_event eng user_id agent_id now) (\<lambda>event_id.
     seq (insert_receipt eng user_id agent_id event_id now) (\<lambda>receipt_id.
     seq (prove_immutable_by_writes eng ''events'' ''event_id'' event_id ''type'') (\<lambda>_.
     seq (prove_immutable_by_writes eng ''receipts'' ''receipt_id'' receipt_id
            ''what_happened'') (\<lambda>_.
     seq (scan_for_ghost_state root) (\<lambda>_.
     print passed_msg))))))))))))"

definition fresh_world :: "'db engine \<Rightarrow> 'db world" where
  \<comment> \<open>the start of the process: \<open>sqlite3.connect(":memory:")\<close>, nothing printed\<close>
  "fresh_world eng = \<lparr>conn_db = connect eng, stdout = [], executed = []\<rparr>"

definition run_guardian ::
  "'db engine \<Rightarrow> string \<Rightarrow> node \<Rightarrow> nat \<Rightarrow> (exn + unit) \<times> 'db world" where
  "run_guardian eng repo_root root now = main eng repo_root root now (fresh_world eng)"

section \<open>Notions of the specification\<close>

definition occurs_in :: "string \<Rightarrow> string \<Rightarrow> bool" where
  \<comment> \<open>a token is present in a text\<close>
  "occurs_in tok s \<longleftrightarrow> (\<exists>pre post. s = pre @ tok @ post)"

definition trigger_bodies :: "(string \<times> string option) list \<Rightarrow> string list" where
  \<comment> \<open>the bodies of the triggers registered against a table, a NULL body being empty\<close>
  "trigger_bodies triggers = map (\<lambda>t. case snd t of None \<Rightarrow> [] | Some sql \<Rightarrow> sql) triggers"

definition stub_engine :: "(string \<Rightarrow> (string \<times> string option) list) \<Rightarrow> bool \<Rightarrow> unit engine" where
  \<comment> \<open>An engine for concrete runs: scripts apply, the catalog answers \<open>trig\<close>, and an
      UPDATE or DELETE statement is rejected with a database error when \<open>blocking\<close>.\<close>
  "stub_engine trig blocking =
     \<lparr>connect = (),
      executescript = (\<lambda>db sql. Inr ()),
      execute = (\<lambda>db sql params.
        (if blocking \<and> (startswith sql ''UPDATE'' \<or> startswith sql ''DELETE'')
         then RaisesDatabaseError ''append-only'' else Done, ())),
      trigger_rows = (\<lambda>db table. trig table)\<rparr>"

definition both_triggers :: "(string \<times> string option) list" where
  "both_triggers =
     [(''no_update'', Some ''CREATE TRIGGER no_update BEFORE UPDATE ON t BEGIN SELECT RAISE(ABORT, 1); END''),
      (''no_delete'', Some ''CREATE TRIGGER no_delete BEFORE DELETE ON t BEGIN SELECT RAISE(ABORT, 1); END'')]"

definition update_trigger_only :: "(string \<times> string option) list" where
  "update_trigger_only =
     [(''no_update'', Some ''CREATE TRIGGER no_update BEFORE UPDATE ON t BEGIN SELECT RAISE(ABORT, 1); END'')]"

definition same_letter :: "char \<Rightarrow> char \<Rightarrow> bool" where
  \<comment> \<open>\<open>d\<close> is the character \<open>c\<close> or, for a lower-case letter \<open>c\<close>, its capital\<close>
  "same_letter d c \<longleftrightarrow> d = c \<or> (d, c) \<in> set (zip ascii_upper ascii_lower)"

definition ci_occurs :: "string \<Rightarrow> string \<Rightarrow> bool" where
  \<comment> \<open>the token occurs in the text, in any mix of capitals and small letters\<close>
  "ci_occurs tok s \<longleftrightarrow> (\<exists>pre mid post. s = pre @ mid @ post \<and> list_all2 same_letter mid tok)"

definition mentions :: "(string \<times> string option) list \<Rightarrow> string \<Rightarrow> bool" where
  \<comment> \<open>the SQL text of one of the triggers holds the token\<close>
  "mentions triggers tok \<longleftrightarrow> (\<exists>t \<in> set triggers. \<exists>sql. snd t = Some sql \<and> ci_occurs tok sql)"

definition delete_trigger_only :: "(string \<times> string option) list" where
  "delete_trigger_only =
     [(''no_delete'', Some ''CREATE TRIGGER no_delete BEFORE DELETE ON t BEGIN SELECT RAISE(ABORT, 1); END'')]"

definition silent_triggers :: "(string \<times> string option) list" where
  \<comment> \<open>triggers on update and on delete that reject nothing\<close>
  "silent_triggers =
     [(''soft_update'', Some ''CREATE TRIGGER soft_update BEFORE UPDATE ON t BEGIN SELECT 1; END''),
      (''soft_delete'', None),
      (''soft_delete2'', Some ''CREATE TRIGGER soft_delete2 BEFORE DELETE ON t BEGIN SELECT 1; END'')]"

definition kernel_candidates :: "path list" where
  \<comment> \<open>the fixed candidate locations of the scan target, in priority order\<close>
  "kernel_candidates = [[''kernel.ts''], [''src'', ''kernel.ts''], [''src'', ''kernel'', ''kernel.ts'']]"

definition located :: "node \<Rightarrow> path option" where
  \<comment> \<open>the scan target: the first candidate location that exists\<close>
  "located root = find (path_exists root) kernel_candidates"

definition ghost_tree :: node where
  \<comment> \<open>a repository whose \<open>src/kernel.ts\<close> changes a budget and logs nothing\<close>
  "ghost_tree =
     Dir [(''src'', Dir [(''kernel.ts'', File (Some ''db.run(INSERT INTO budgets (...));''))])]"

definition unreadable_tree :: node where
  \<comment> \<open>a repository whose \<open>kernel.ts\<close> holds bytes that are not UTF-8\<close>
  "unreadable_tree = Dir [(''kernel.ts'', File None)]"

definition bare_tree :: node where
  \<comment> \<open>a repository without a \<open>kernel.ts\<close>\<close>
  "bare_tree = Dir [(''src'', Dir [(''index.ts'', File (Some ''export {};''))])]"

definition guardian_statements :: "nat \<Rightarrow> (string \<times> sqlval list) list" where
  \<comment> \<open>the statements of a whole run, in order, for the clock value \<open>now\<close>\<close>
  "guardian_statements now =
     (let user_id = ''user_guardian_'' @ str_nat now;
          agent_id = ''agent_guardian_'' @ str_nat now;
          event_id = ''evt_guardian_'' @ str_nat now;
          receipt_id = ''rcpt_guardian_'' @ str_nat now
      in [(''PRAGMA foreign_keys = ON'', []),
          (sql_insert_user, [SqlText user_id, SqlInt (int now)]),
          (sql_insert_agent,
           [SqlText agent_id, SqlText user_id, SqlText ''active'', SqlInt (int now),
            SqlInt (int now)]),
          (sql_insert_event,
           [SqlText event_id, SqlText agent_id, SqlText user_id, SqlText ''kernel.guardian'',
            SqlText ''{}'', SqlInt (int now), SqlInt (int now), SqlText ''hash_guardian'',
            SqlNull]),
          (sql_insert_receipt,
           [SqlText receipt_id, SqlText agent_id, SqlText user_id, SqlText ''policy'',
            SqlText event_id, SqlText ''guardian'', SqlText ''Guardian test insert.'',
            SqlText ''guardian'', SqlText ''Guardian will attempt mutation.'',
            SqlInt (int now), SqlInt (int now)]),
          (sql_update_self ''events'' ''type'' ''event_id'', [SqlText event_id]),
          (sql_delete_by_pk ''events'' ''event_id'', [SqlText event_id]),
          (sql_update_self ''receipts'' ''what_happened'' ''receipt_id'', [SqlText receipt_id]),
          (sql_delete_by_pk ''receipts'' ''receipt_id'', [SqlText receipt_id])])"

definition passing_output :: "node \<Rightarrow> string list" where
  \<comment> \<open>the lines of a run in which every check passes\<close>
  "passing_output root =
     [banner,
      immutable_ok_msg ''events'', immutable_ok_msg ''receipts'',
      blocked_msg ''UPDATE on events'', blocked_msg ''DELETE on events'',
      blocked_msg ''UPDATE on receipts'', blocked_msg ''DELETE on receipts'',
      if located root = None then ghost_warn_msg else ghost_ok_msg,
      passed_msg]"

definition passing_tree :: node where
  \<comment> \<open>a repository with one migration and a \<open>kernel.ts\<close> that logs its mutation\<close>
  "passing_tree =
     Dir [(''migrations'',
           Dir [(''001_init.sql'', File (Some ''CREATE TABLE events (event_id TEXT PRIMARY KEY);''))]),
          (''kernel.ts'',
           File (Some ''db.run(UPDATE budgets SET spent = 1); emitEvent(budget);''))]"

definition is_ok_line :: "string \<Rightarrow> bool" where
  \<comment> \<open>an \<open>[OK]\<close> line of the output\<close>
  "is_ok_line l = startswith l ''[OK]''"

subsection \<open>The run as a pipeline of five stages\<close>

datatype stage = Load | Verify | Seed | Prove | Scan



type_synonym ids = "string \<times> string"



datatype 'db run_state =
    Running stage ids "'db world"
  | Passed "'db world"
  | Failed exn "'db world"






section \<open>What a pattern matches\<close>

text \<open>
  The meaning of a pattern, apart from any order of search: \<open>rx_match ic s r i j\<close> says
  that \<open>r\<close> matches the characters of \<open>s\<close> from offset \<open>i\<close> up to offset \<open>j\<close>.
  \<open>cursor_at s i\<close> is the cursor of the matcher at offset \<open>i\<close> of \<open>s\<close>.
\<close>

definition chr_match :: "bool \<Rightarrow> char \<Rightarrow> char \<Rightarrow> bool" where
  "chr_match ic c d = (if ic then lower_char d = lower_char c else d = c)"

definition cursor_at :: "string \<Rightarrow> nat \<Rightarrow> cursor" where
  "cursor_at s i = Cursor i (if i = 0 then None else Some (s ! (i - 1))) (drop i s)"

inductive rx_match :: "bool \<Rightarrow> string \<Rightarrow> rx \<Rightarrow> nat \<Rightarrow> nat \<Rightarrow> bool"
  for ic :: bool and s :: string where
  m_lit: "i < length s \<Longrightarrow> chr_match ic c (s ! i) \<Longrightarrow> rx_match ic s (Lit c) i (Suc i)"
| m_notin: "i < length s \<Longrightarrow> s ! i \<notin> set cs \<Longrightarrow> rx_match ic s (NotIn cs) i (Suc i)"
| m_any: "i < length s \<Longrightarrow> s ! i \<noteq> CHR 0x0A \<Longrightarrow> rx_match ic s AnyChar i (Suc i)"
| m_space: "i < length s \<Longrightarrow> is_space (s ! i) \<Longrightarrow> rx_match ic s Space i (Suc i)"
| m_wordb: "i \<le> length s \<Longrightarrow> word_boundary (cursor_at s i) \<Longrightarrow> rx_match ic s WordB i i"
| m_eps: "i \<le> length s \<Longrightarrow> rx_match ic s Eps i i"
| m_seq: "rx_match ic s r1 i k \<Longrightarrow> rx_match ic s r2 k j \<Longrightarrow> rx_match ic s (Seq r1 r2) i j"
| m_alt1: "rx_match ic s r1 i j \<Longrightarrow> rx_match ic s (Alt r1 r2) i j"
| m_alt2: "rx_match ic s r2 i j \<Longrightarrow> rx_match ic s (Alt r1 r2) i j"
| m_star0: "i \<le> length s \<Longrightarrow> rx_match ic s (Star r) i i"
| m_star: "rx_match ic s r i k \<Longrightarrow> rx_match ic s (Star r) k j \<Longrightarrow> rx_match ic s (Star r) i j"
| m_group: "rx_match ic s r i j \<Longrightarrow> rx_match ic s (Group r) i j"





section \<open>Substrings\<close>

lemma startswith_iff: "startswith s p \<longleftrightarrow> (\<exists>post. s = p @ post)"
  by (induction s p rule: startswith.induct) auto

lemma contains_iff_occurs_in: "contains s t \<longleftrightarrow> occurs_in t s"
proof (induction s)
  case Nil
  show ?case by (auto simp: occurs_in_def)
next
  case (Cons c cs)
  have "occurs_in t (c # cs) \<longleftrightarrow> (\<exists>post. c # cs = t @ post) \<or> occurs_in t cs"
  proof
    assume "occurs_in t (c # cs)"
    then obtain pre post where eq: "c # cs = pre @ t @ post"
      by (auto simp: occurs_in_def)
    show "(\<exists>post. c # cs = t @ post) \<or> occurs_in t cs"
    proof (cases pre)
      case Nil
      with eq show ?thesis by auto
    next
      case (Cons d ds)
      with eq have "cs = ds @ t @ post" by simp
      then show ?thesis by (auto simp: occurs_in_def)
    qed
  next
    assume "(\<exists>post. c # cs = t @ post) \<or> occurs_in t cs"
    then show "occurs_in t (c # cs)"
    proof
      assume "\<exists>post. c # cs = t @ post"
      then obtain post where "c # cs = [] @ t @ post" by auto
      then show ?thesis unfolding occurs_in_def by blast
    next
      assume "occurs_in t cs"
      then obtain pre post where "cs = pre @ t @ post" by (auto simp: occurs_in_def)
      then have "c # cs = (c # pre) @ t @ post" by simp
      then show ?thesis unfolding occurs_in_def by blast
    qed
  qed
  with Cons.IH show ?case by (simp add: startswith_iff)
qed

section \<open>What each step of the guardian prints and executes\<close>

lemma seq_InrE:
  assumes "seq m f w = (Inr v, w')"
  obtains x w1 where "m w = (Inr x, w1)" and "f x w1 = (Inr v, w')"
  using assms by (auto simp: seq_def split: prod.splits sum.splits)

lemma seq_cases:
  assumes "seq m f w = (r, w')"
  obtains e where "m w = (Inl e, w')" and "r = Inl e"
  | x w1 where "m w = (Inr x, w1)" and "f x w1 = (r, w')"
  using assms by (auto simp: seq_def split: prod.splits sum.splits)

lemma seq_Inl: "m w = (Inl e, w1) \<Longrightarrow> seq m f w = (Inl e, w1)"
  by (simp add: seq_def)

lemma seq_Inr: "m w = (Inr x, w1) \<Longrightarrow> seq m f w = f x w1"
  by (simp add: seq_def)

lemma conn_execute_frame:
  assumes "conn_execute eng sql params w = (r, w')"
  shows "stdout w' = stdout w \<and> executed w' = executed w @ [(sql, params)]"
  using assms
  by (auto simp: conn_execute_def Let_def split: prod.splits exec_result.splits)

lemma conn_execute_result:
  "fst (conn_execute eng sql params w) =
     (case fst (execute eng (conn_db w) sql params) of
        Done \<Rightarrow> Inr ()
      | RaisesDatabaseError m \<Rightarrow> Inl (DatabaseError m)
      | RaisesOther m \<Rightarrow> Inl (OtherException m))"
  by (auto simp: conn_execute_def Let_def split: prod.splits exec_result.splits)

lemma conn_execute_db:
  "conn_db (snd (conn_execute eng sql params w)) = snd (execute eng (conn_db w) sql params)"
  by (auto simp: conn_execute_def Let_def split: prod.splits exec_result.splits)

lemma apply_migrations_frame:
  "apply_migrations eng repo_root root files w = (r, w') \<Longrightarrow>
     stdout w' = stdout w \<and> executed w' = executed w"
proof (induction files arbitrary: w)
  case Nil
  then show ?case by auto
next
  case (Cons f files)
  then show ?case
    by (auto split: sum.splits)
qed

lemma require_immutable_table_Inr:
  "require_immutable_table eng table w = (Inr u, w') \<Longrightarrow>
     w' = w\<lparr>stdout := stdout w @ [immutable_ok_msg table]\<rparr>"
  by (auto simp: require_immutable_table_def Let_def raise_def print_def split: if_splits)


lemma seed_actor_Inr:
  assumes "seed_actor eng now w = (Inr v, w')"
  shows "v = (''user_guardian_'' @ str_nat now, ''agent_guardian_'' @ str_nat now, now)
         \<and> stdout w' = stdout w
         \<and> executed w' = executed w @
             [(sql_insert_user, [SqlText (''user_guardian_'' @ str_nat now), SqlInt (int now)]),
              (sql_insert_agent,
               [SqlText (''agent_guardian_'' @ str_nat now),
                SqlText (''user_guardian_'' @ str_nat now), SqlText ''active'',
                SqlInt (int now), SqlInt (int now)])]"
proof -
  from assms obtain x w1 y w2
    where a: "conn_execute eng sql_insert_user
                [SqlText (''user_guardian_'' @ str_nat now), SqlInt (int now)] w = (Inr x, w1)"
      and b: "conn_execute eng sql_insert_agent
                [SqlText (''agent_guardian_'' @ str_nat now),
                 SqlText (''user_guardian_'' @ str_nat now), SqlText ''active'',
                 SqlInt (int now), SqlInt (int now)] w1 = (Inr y, w2)"
      and c: "(Inr (''user_guardian_'' @ str_nat now, ''agent_guardian_'' @ str_nat now, now), w2)
               = (Inr v, w')"
    unfolding seed_actor_def Let_def by (elim seq_InrE) auto
  from conn_execute_frame [OF a] conn_execute_frame [OF b] c show ?thesis
    by auto
qed

lemma seed_actor_frame:
  assumes "seed_actor eng now w = (r, w')"
  shows "stdout w' = stdout w"
  using assms unfolding seed_actor_def Let_def
  by (elim seq_cases) (auto dest!: conn_execute_frame)

lemma insert_event_Inr:
  assumes "insert_event eng user_id agent_id now w = (Inr v, w')"
  shows "v = ''evt_guardian_'' @ str_nat now \<and> stdout w' = stdout w
         \<and> executed w' = executed w @
              [(sql_insert_event,
                [SqlText (''evt_guardian_'' @ str_nat now), SqlText agent_id, SqlText user_id,
                 SqlText ''kernel.guardian'', SqlText ''{}'', SqlInt (int now), SqlInt (int now),
                 SqlText ''hash_guardian'', SqlNull])]"
  using assms unfolding insert_event_def Let_def
  by (elim seq_cases) (auto dest!: conn_execute_frame)

lemma insert_event_frame:
  assumes "insert_event eng user_id agent_id now w = (r, w')"
  shows "stdout w' = stdout w"
  using assms unfolding insert_event_def Let_def
  by (elim seq_cases) (auto dest!: conn_execute_frame)

lemma insert_receipt_Inr:
  assumes "insert_receipt eng user_id agent_id event_id now w = (Inr v, w')"
  shows "v = ''rcpt_guardian_'' @ str_nat now \<and> stdout w' = stdout w
         \<and> executed w' = executed w @
              [(sql_insert_receipt,
                [SqlText (''rcpt_guardian_'' @ str_nat now), SqlText agent_id, SqlText user_id,
                 SqlText ''policy'', SqlText event_id, SqlText ''guardian'',
                 SqlText ''Guardian test insert.'', SqlText ''guardian'',
                 SqlText ''Guardian will attempt mutation.'', SqlInt (int now), SqlInt (int now)])]"
  using assms unfolding insert_receipt_def Let_def
  by (elim seq_cases) (auto dest!: conn_execute_frame)

lemma insert_receipt_frame:
  assumes "insert_receipt eng user_id agent_id event_id now w = (r, w')"
  shows "stdout w' = stdout w"
  using assms unfolding insert_receipt_def Let_def
  by (elim seq_cases) (auto dest!: conn_execute_frame)

lemma assert_blocked_cases:
  "assert_blocked eng sql params label w =
     (let w1 = snd (conn_execute eng sql params w)
      in case fst (execute eng (conn_db w) sql params) of
           Done \<Rightarrow> (Inl (SystemExit (allowed_msg label)), w1)
         | RaisesDatabaseError m \<Rightarrow> (Inr (), w1\<lparr>stdout := stdout w1 @ [blocked_msg label]\<rparr>)
         | RaisesOther m \<Rightarrow> (Inl (OtherException m), w1))"
  by (auto simp: assert_blocked_def conn_execute_def Let_def print_def raise_def
      split: prod.splits exec_result.splits)

lemma assert_blocked_Inr:
  assumes "assert_blocked eng sql params label w = (Inr u, w')"
  shows "stdout w' = stdout w @ [blocked_msg label]
         \<and> executed w' = executed w @ [(sql, params)]
         \<and> conn_db w' = snd (execute eng (conn_db w) sql params)"
proof -
  obtain r w1 where c: "conn_execute eng sql params w = (r, w1)"
    by (cases "conn_execute eng sql params w")
  from conn_execute_frame [OF c] conn_execute_db [of eng sql params w] c assms show ?thesis
    by (auto simp: assert_blocked_cases Let_def split: exec_result.splits)
qed

lemma prove_immutable_by_writes_Inr:
  assumes "prove_immutable_by_writes eng table pk_col pk_value update_col w = (Inr u, w')"
  shows "stdout w' = stdout w @ [blocked_msg (''UPDATE on '' @ table),
                                 blocked_msg (''DELETE on '' @ table)]
         \<and> executed w' = executed w @
             [(sql_update_self table update_col pk_col, [SqlText pk_value]),
              (sql_delete_by_pk table pk_col, [SqlText pk_value])]"
proof -
  from assms obtain x w1
    where a: "assert_blocked eng (sql_update_self table update_col pk_col) [SqlText pk_value]
                (''UPDATE on '' @ table) w = (Inr x, w1)"
      and b: "assert_blocked eng (sql_delete_by_pk table pk_col) [SqlText pk_value]
                (''DELETE on '' @ table) w1 = (Inr u, w')"
    unfolding prove_immutable_by_writes_def by (elim seq_InrE)
  from assert_blocked_Inr [OF a] assert_blocked_Inr [OF b] show ?thesis
    by simp
qed

lemma print_all_eq: "print_all ls w = (Inr (), w\<lparr>stdout := stdout w @ ls\<rparr>)"
  by (induction ls arbitrary: w) (auto simp: seq_def print_def)

lemma resolve_kernel_path_located:
  "located root = Some p \<Longrightarrow> resolve_kernel_path root = p \<and> path_exists root p"
  by (auto simp: located_def kernel_candidates_def resolve_kernel_path_def Let_def
      split: if_splits)

lemma resolve_kernel_path_not_located:
  "located root = None \<Longrightarrow> \<not> path_exists root (resolve_kernel_path root)"
  by (auto simp: located_def kernel_candidates_def resolve_kernel_path_def Let_def
      split: if_splits)

lemma scan_for_ghost_state_cases:
  "scan_for_ghost_state root w =
     (case located root of
        None \<Rightarrow> (Inr (), w\<lparr>stdout := stdout w @ [ghost_warn_msg]\<rparr>)
      | Some p \<Rightarrow>
          (case read_file root p of
             Inl e \<Rightarrow> (Inl e, w)
           | Inr text \<Rightarrow>
               if ghost_hits text = []
               then (Inr (), w\<lparr>stdout := stdout w @ [ghost_ok_msg]\<rparr>)
               else (Inl (SystemExit ghost_fail_msg),
                     w\<lparr>stdout := stdout w @ ghost_fail_header
                                    # map hit_line (take 25 (ghost_hits text))\<rparr>)))"
proof (cases "located root")
  case None
  from resolve_kernel_path_not_located [OF None] None show ?thesis
    by (simp add: scan_for_ghost_state_def Let_def print_def)
next
  case (Some p)
  from resolve_kernel_path_located [OF Some] Some show ?thesis
    by (auto simp: scan_for_ghost_state_def Let_def print_def raise_def seq_def print_all_eq
        split: sum.splits)
qed

lemma read_file_not_exit: "read_file root p \<noteq> Inl (SystemExit msg)"
  by (auto simp: read_file_def split: option.splits node.splits)

lemma scan_for_ghost_state_Inr:
  assumes "scan_for_ghost_state root w = (Inr u, w')"
  shows "executed w' = executed w
         \<and> stdout w' = stdout w @ [if located root = None then ghost_warn_msg else ghost_ok_msg]"
  using assms
  by (auto simp: scan_for_ghost_state_cases split: option.splits sum.splits if_splits)

lemma main_passes:
  assumes run: "main eng repo_root root now w = (Inr u, w')"
  shows "stdout w' = stdout w @ passing_output root
         \<and> executed w' = executed w @ guardian_statements now"
proof -
  from run obtain x0 w0 files w1 x2 w2 x3 w3 x4 w4 x5 w5 ids w6
    where s0: "print banner w = (Inr x0, w0)"
      and s1: "lift (find_sql_migrations repo_root root) w0 = (Inr files, w1)"
      and s2: "conn_execute eng ''PRAGMA foreign_keys = ON'' [] w1 = (Inr x2, w2)"
      and s3: "apply_migrations eng repo_root root files w2 = (Inr x3, w3)"
      and s4: "require_immutable_table eng ''events'' w3 = (Inr x4, w4)"
      and s5: "require_immutable_table eng ''receipts'' w4 = (Inr x5, w5)"
      and s6: "seed_actor eng now w5 = (Inr ids, w6)"
      and rest: "(case ids of (user_id, agent_id, now) \<Rightarrow>
                   seq (insert_event eng user_id agent_id now) (\<lambda>event_id.
                   seq (insert_receipt eng user_id agent_id event_id now) (\<lambda>receipt_id.
                   seq (prove_immutable_by_writes eng ''events'' ''event_id'' event_id ''type'') (\<lambda>_.
                   seq (prove_immutable_by_writes eng ''receipts'' ''receipt_id'' receipt_id
                          ''what_happened'') (\<lambda>_.
                   seq (scan_for_ghost_state root) (\<lambda>_.
                   print passed_msg)))))) w6 = (Inr u, w')"
    unfolding main_def by (elim seq_InrE)
  from seed_actor_Inr [OF s6]
  have ids: "ids = (''user_guardian_'' @ str_nat now, ''agent_guardian_'' @ str_nat now, now)"
    by simp
  from rest obtain ev w7 rc w8 x9 w9 x10 w10 x11 w11
    where s7: "insert_event eng (''user_guardian_'' @ str_nat now)
                 (''agent_guardian_'' @ str_nat now) now w6 = (Inr ev, w7)"
      and s8: "insert_receipt eng (''user_guardian_'' @ str_nat now)
                 (''agent_guardian_'' @ str_nat now) ev now w7 = (Inr rc, w8)"
      and s9: "prove_immutable_by_writes eng ''events'' ''event_id'' ev ''type'' w8 = (Inr x9, w9)"
      and s10: "prove_immutable_by_writes eng ''receipts'' ''receipt_id'' rc ''what_happened'' w9
                  = (Inr x10, w10)"
      and s11: "scan_for_ghost_state root w10 = (Inr x11, w11)"
      and s12: "print passed_msg w11 = (Inr u, w')"
    unfolding ids prod.case by (elim seq_InrE)
  have f0: "stdout w0 = stdout w @ [banner] \<and> executed w0 = executed w"
    using s0 by (auto simp: print_def)
  have f1: "w1 = w0"
    using s1 by (simp add: lift_def)
  note f2 = conn_execute_frame [OF s2]
  note f3 = apply_migrations_frame [OF s3]
  note f4 = require_immutable_table_Inr [OF s4]
  note f5 = require_immutable_table_Inr [OF s5]
  note f6 = seed_actor_Inr [OF s6]
  note f7 = insert_event_Inr [OF s7]
  note f8 = insert_receipt_Inr [OF s8]
  note f9 = prove_immutable_by_writes_Inr [OF s9]
  note f10 = prove_immutable_by_writes_Inr [OF s10]
  note f11 = scan_for_ghost_state_Inr [OF s11]
  have f12: "stdout w' = stdout w11 @ [passed_msg] \<and> executed w' = executed w11"
    using s12 by (auto simp: print_def)
  have out: "stdout w' = stdout w @ passing_output root"
    using f0 f1 f2 f3 f4 f5 f6 f7 f8 f9 f10 f11 f12
    by (simp add: passing_output_def)
  have exe: "executed w' = executed w @ guardian_statements now"
    using f0 f1 f2 f3 f4 f5 f6 f7 f8 f9 f10 f11 f12
    by (simp add: guardian_statements_def Let_def)
  from out exe show ?thesis ..
qed

section \<open>Evaluation of concrete runs\<close>

text \<open>
  The character classes on the printable ASCII characters, as rewrite rules, so that a
  concrete text is scanned without arithmetic on character codes.
\<close>

lemma lower_char_ascii:
  "lower_char (CHR '' '') = CHR '' ''"
  "lower_char (CHR ''!'') = CHR ''!''"
  "lower_char (CHR 0x22) = CHR 0x22"
  "lower_char (CHR ''#'') = CHR ''#''"
  "lower_char (CHR ''$'') = CHR ''$''"
  "lower_char (CHR ''%'') = CHR ''%''"
  "lower_char (CHR ''&'') = CHR ''&''"
  "lower_char (CHR 0x27) = CHR 0x27"
  "lower_char (CHR ''('') = CHR ''(''"
  "lower_char (CHR '')'') = CHR '')''"
  "lower_char (CHR ''*'') = CHR ''*''"
  "lower_char (CHR ''+'') = CHR ''+''"
  "lower_char (CHR '','') = CHR '',''"
  "lower_char (CHR ''-'') = CHR ''-''"
  "lower_char (CHR ''.'') = CHR ''.''"
  "lower_char (CHR ''/'') = CHR ''/''"
  "lower_char (CHR ''0'') = CHR ''0''"
  "lower_char (CHR ''1'') = CHR ''1''"
  "lower_char (CHR ''2'') = CHR ''2''"
  "lower_char (CHR ''3'') = CHR ''3''"
  "lower_char (CHR ''4'') = CHR ''4''"
  "lower_char (CHR ''5'') = CHR ''5''"
  "lower_char (CHR ''6'') = CHR ''6''"
  "lower_char (CHR ''7'') = CHR ''7''"
  "lower_char (CHR ''8'') = CHR ''8''"
  "lower_char (CHR ''9'') = CHR ''9''"
  "lower_char (CHR '':'') = CHR '':''"
  "lower_char (CHR '';'') = CHR '';''"
  "lower_char (CHR ''<'') = CHR ''<''"
  "lower_char (CHR ''='') = CHR ''=''"
  "lower_char (CHR ''>'') = CHR ''>''"
  "lower_char (CHR ''?'') = CHR ''?''"
  "lower_char (CHR ''@'') = CHR ''@''"
  "lower_char (CHR ''A'') = CHR ''a''"
  "lower_char (CHR ''B'') = CHR ''b''"
  "lower_char (CHR ''C'') = CHR ''c''"
  "lower_char (CHR ''D'') = CHR ''d''"
  "lower_char (CHR ''E'') = CHR ''e''"
  "lower_char (CHR ''F'') = CHR ''f''"
  "lower_char (CHR ''G'') = CHR ''g''"
  "lower_char (CHR ''H'') = CHR ''h''"
  "lower_char (CHR ''I'') = CHR ''i''"
  "lower_char (CHR ''J'') = CHR ''j''"
  "lower_char (CHR ''K'') = CHR ''k''"
  "lower_char (CHR ''L'') = CHR ''l''"
  "lower_char (CHR ''M'') = CHR ''m''"
  "lower_char (CHR ''N'') = CHR ''n''"
  "lower_char (CHR ''O'') = CHR ''o''"
  "lower_char (CHR ''P'') = CHR ''p''"
  "lower_char (CHR ''Q'') = CHR ''q''"
  "lower_char (CHR ''R'') = CHR ''r''"
  "lower_char (CHR ''S'') = CHR ''s''"
  "lower_char (CHR ''T'') = CHR ''t''"
  "lower_char (CHR ''U'') = CHR ''u''"
  "lower_char (CHR ''V'') = CHR ''v''"
  "lower_char (CHR ''W'') = CHR ''w''"
  "lower_char (CHR ''X'') = CHR ''x''"
  "lower_char (CHR ''Y'') = CHR ''y''"
  "lower_char (CHR ''Z'') = CHR ''z''"
  "lower_char (CHR ''['') = CHR ''[''"
  "lower_char (CHR 0x5C) = CHR 0x5C"
  "lower_char (CHR '']'') = CHR '']''"
  "lower_char (CHR ''^'') = CHR ''^''"
  "lower_char (CHR ''_'') = CHR ''_''"
  "lower_char (CHR 0x60) = CHR 0x60"
  "lower_char (CHR ''a'') = CHR ''a''"
  "lower_char (CHR ''b'') = CHR ''b''"
  "lower_char (CHR ''c'') = CHR ''c''"
  "lower_char (CHR ''d'') = CHR ''d''"
  "lower_char (CHR ''e'') = CHR ''e''"
  "lower_char (CHR ''f'') = CHR ''f''"
  "lower_char (CHR ''g'') = CHR ''g''"
  "lower_char (CHR ''h'') = CHR ''h''"
  "lower_char (CHR ''i'') = CHR ''i''"
  "lower_char (CHR ''j'') = CHR ''j''"
  "lower_char (CHR ''k'') = CHR ''k''"
  "lower_char (CHR ''l'') = CHR ''l''"
  "lower_char (CHR ''m'') = CHR ''m''"
  "lower_char (CHR ''n'') = CHR ''n''"
  "lower_char (CHR ''o'') = CHR ''o''"
  "lower_char (CHR ''p'') = CHR ''p''"
  "lower_char (CHR ''q'') = CHR ''q''"
  "lower_char (CHR ''r'') = CHR ''r''"
  "lower_char (CHR ''s'') = CHR ''s''"
  "lower_char (CHR ''t'') = CHR ''t''"
  "lower_char (CHR ''u'') = CHR ''u''"
  "lower_char (CHR ''v'') = CHR ''v''"
  "lower_char (CHR ''w'') = CHR ''w''"
  "lower_char (CHR ''x'') = CHR ''x''"
  "lower_char (CHR ''y'') = CHR ''y''"
  "lower_char (CHR ''z'') = CHR ''z''"
  "lower_char (CHR ''{'') = CHR ''{''"
  "lower_char (CHR ''|'') = CHR ''|''"
  "lower_char (CHR ''}'') = CHR ''}''"
  "lower_char (CHR ''~'') = CHR ''~''"
  by (simp_all add: lower_char_def ascii_upper_def ascii_lower_def)

lemma is_space_ascii:
  "is_space (CHR '' '') = True"
  "is_space (CHR ''!'') = False"
  "is_space (CHR 0x22) = False"
  "is_space (CHR ''#'') = False"
  "is_space (CHR ''$'') = False"
  "is_space (CHR ''%'') = False"
  "is_space (CHR ''&'') = False"
  "is_space (CHR 0x27) = False"
  "is_space (CHR ''('') = False"
  "is_space (CHR '')'') = False"
  "is_space (CHR ''*'') = False"
  "is_space (CHR ''+'') = False"
  "is_space (CHR '','') = False"
  "is_space (CHR ''-'') = False"
  "is_space (CHR ''.'') = False"
  "is_space (CHR ''/'') = False"
  "is_space (CHR ''0'') = False"
  "is_space (CHR ''1'') = False"
  "is_space (CHR ''2'') = False"
  "is_space (CHR ''3'') = False"
  "is_space (CHR ''4'') = False"
  "is_space (CHR ''5'') = False"
  "is_space (CHR ''6'') = False"
  "is_space (CHR ''7'') = False"
  "is_space (CHR ''8'') = False"
  "is_space (CHR ''9'') = False"
  "is_space (CHR '':'') = False"
  "is_space (CHR '';'') = False"
  "is_space (CHR ''<'') = False"
  "is_space (CHR ''='') = False"
  "is_space (CHR ''>'') = False"
  "is_space (CHR ''?'') = False"
  "is_space (CHR ''@'') = False"
  "is_space (CHR ''A'') = False"
  "is_space (CHR ''B'') = False"
  "is_space (CHR ''C'') = False"
  "is_space (CHR ''D'') = False"
  "is_space (CHR ''E'') = False"
  "is_space (CHR ''F'') = False"
  "is_space (CHR ''G'') = False"
  "is_space (CHR ''H'') = False"
  "is_space (CHR ''I'') = False"
  "is_space (CHR ''J'') = False"
  "is_space (CHR ''K'') = False"
  "is_space (CHR ''L'') = False"
  "is_space (CHR ''M'') = False"
  "is_space (CHR ''N'') = False"
  "is_space (CHR ''O'') = False"
  "is_space (CHR ''P'') = False"
  "is_space (CHR ''Q'') = False"
  "is_space (CHR ''R'') = False"
  "is_space (CHR ''S'') = False"
  "is_space (CHR ''T'') = False"
  "is_space (CHR ''U'') = False"
  "is_space (CHR ''V'') = False"
  "is_space (CHR ''W'') = False"
  "is_space (CHR ''X'') = False"
  "is_space (CHR ''Y'') = False"
  "is_space (CHR ''Z'') = False"
  "is_space (CHR ''['') = False"
  "is_space (CHR 0x5C) = False"
  "is_space (CHR '']'') = False"
  "is_space (CHR ''^'') = False"
  "is_space (CHR ''_'') = False"
  "is_space (CHR 0x60) = False"
  "is_space (CHR ''a'') = False"
  "is_space (CHR ''b'') = False"
  "is_space (CHR ''c'') = False"
  "is_space (CHR ''d'') = False"
  "is_space (CHR ''e'') = False"
  "is_space (CHR ''f'') = False"
  "is_space (CHR ''g'') = False"
  "is_space (CHR ''h'') = False"
  "is_space (CHR ''i'') = False"
  "is_space (CHR ''j'') = False"
  "is_space (CHR ''k'') = False"
  "is_space (CHR ''l'') = False"
  "is_space (CHR ''m'') = False"
  "is_space (CHR ''n'') = False"
  "is_space (CHR ''o'') = False"
  "is_space (CHR ''p'') = False"
  "is_space (CHR ''q'') = False"
  "is_space (CHR ''r'') = False"
  "is_space (CHR ''s'') = False"
  "is_space (CHR ''t'') = False"
  "is_space (CHR ''u'') = False"
  "is_space (CHR ''v'') = False"
  "is_space (CHR ''w'') = False"
  "is_space (CHR ''x'') = False"
  "is_space (CHR ''y'') = False"
  "is_space (CHR ''z'') = False"
  "is_space (CHR ''{'') = False"
  "is_space (CHR ''|'') = False"
  "is_space (CHR ''}'') = False"
  "is_space (CHR ''~'') = False"
  "is_space (CHR 0x09) = True"
  "is_space (CHR 0x0A) = True"
  "is_space (CHR 0x0D) = True"
  by (simp_all add: is_space_def)

lemma is_word_ascii:
  "is_word (CHR '' '') = False"
  "is_word (CHR ''!'') = False"
  "is_word (CHR 0x22) = False"
  "is_word (CHR ''#'') = False"
  "is_word (CHR ''$'') = False"
  "is_word (CHR ''%'') = False"
  "is_word (CHR ''&'') = False"
  "is_word (CHR 0x27) = False"
  "is_word (CHR ''('') = False"
  "is_word (CHR '')'') = False"
  "is_word (CHR ''*'') = False"
  "is_word (CHR ''+'') = False"
  "is_word (CHR '','') = False"
  "is_word (CHR ''-'') = False"
  "is_word (CHR ''.'') = False"
  "is_word (CHR ''/'') = False"
  "is_word (CHR ''0'') = True"
  "is_word (CHR ''1'') = True"
  "is_word (CHR ''2'') = True"
  "is_word (CHR ''3'') = True"
  "is_word (CHR ''4'') = True"
  "is_word (CHR ''5'') = True"
  "is_word (CHR ''6'') = True"
  "is_word (CHR ''7'') = True"
  "is_word (CHR ''8'') = True"
  "is_word (CHR ''9'') = True"
  "is_word (CHR '':'') = False"
  "is_word (CHR '';'') = False"
  "is_word (CHR ''<'') = False"
  "is_word (CHR ''='') = False"
  "is_word (CHR ''>'') = False"
  "is_word (CHR ''?'') = False"
  "is_word (CHR ''@'') = False"
  "is_word (CHR ''A'') = True"
  "is_word (CHR ''B'') = True"
  "is_word (CHR ''C'') = True"
  "is_word (CHR ''D'') = True"
  "is_word (CHR ''E'') = True"
  "is_word (CHR ''F'') = True"
  "is_word (CHR ''G'') = True"
  "is_word (CHR ''H'') = True"
  "is_word (CHR ''I'') = True"
  "is_word (CHR ''J'') = True"
  "is_word (CHR ''K'') = True"
  "is_word (CHR ''L'') = True"
  "is_word (CHR ''M'') = True"
  "is_word (CHR ''N'') = True"
  "is_word (CHR ''O'') = True"
  "is_word (CHR ''P'') = True"
  "is_word (CHR ''Q'') = True"
  "is_word (CHR ''R'') = True"
  "is_word (CHR ''S'') = True"
  "is_word (CHR ''T'') = True"
  "is_word (CHR ''U'') = True"
  "is_word (CHR ''V'') = True"
  "is_word (CHR ''W'') = True"
  "is_word (CHR ''X'') = True"
  "is_word (CHR ''Y'') = True"
  "is_word (CHR ''Z'') = True"
  "is_word (CHR ''['') = False"
  "is_word (CHR 0x5C) = False"
  "is_word (CHR '']'') = False"
  "is_word (CHR ''^'') = False"
  "is_word (CHR ''_'') = True"
  "is_word (CHR 0x60) = False"
  "is_word (CHR ''a'') = True"
  "is_word (CHR ''b'') = True"
  "is_word (CHR ''c'') = True"
  "is_word (CHR ''d'') = True"
  "is_word (CHR ''e'') = True"
  "is_word (CHR ''f'') = True"
  "is_word (CHR ''g'') = True"
  "is_word (CHR ''h'') = True"
  "is_word (CHR ''i'') = True"
  "is_word (CHR ''j'') = True"
  "is_word (CHR ''k'') = True"
  "is_word (CHR ''l'') = True"
  "is_word (CHR ''m'') = True"
  "is_word (CHR ''n'') = True"
  "is_word (CHR ''o'') = True"
  "is_word (CHR ''p'') = True"
  "is_word (CHR ''q'') = True"
  "is_word (CHR ''r'') = True"
  "is_word (CHR ''s'') = True"
  "is_word (CHR ''t'') = True"
  "is_word (CHR ''u'') = True"
  "is_word (CHR ''v'') = True"
  "is_word (CHR ''w'') = True"
  "is_word (CHR ''x'') = True"
  "is_word (CHR ''y'') = True"
  "is_word (CHR ''z'') = True"
  "is_word (CHR ''{'') = False"
  "is_word (CHR ''|'') = False"
  "is_word (CHR ''}'') = False"
  "is_word (CHR ''~'') = False"
  by (simp_all add: is_word_def)

lemmas rx_eval = finditer_def finditer_from.simps ends.simps mutation_rx_def lits_def rx_plus_def seqs_def
  lower_char_ascii is_space_ascii is_word_ascii word_boundary_def

lemmas scan_eval = rx_eval window_def unlogged_def slice_def lower_def table_hits_def
  ghost_hits_def suspicious_tables_def

lemmas fs_eval = path_exists_def resolve_kernel_path_def read_file_def located_def
  kernel_candidates_def

text \<open>A run in which every check passes, evaluated.\<close>

lemma passing_tree_migrations:
  "find_sql_migrations ''/repo'' passing_tree = Inr [[''migrations'', ''001_init.sql'']]"
  by (simp add: find_sql_migrations_def candidates_def passing_tree_def glob_sql_def
      fnmatch_sql_def endswith_def sorted_paths_def path_str_def path_exists_def)

lemma both_triggers_blob:
  "contains (sql_blob_of both_triggers) ''update'' \<and> contains (sql_blob_of both_triggers) ''delete''
   \<and> contains (sql_blob_of both_triggers) ''raise''"
  by (simp add: sql_blob_of_def both_triggers_def join_def lower_def lower_char_ascii
      lower_char_def ascii_upper_def ascii_lower_def)

lemma passing_tree_located: "located passing_tree = Some [''kernel.ts'']"
  by (simp add: fs_eval passing_tree_def)

lemma passing_tree_read:
  "read_file passing_tree [''kernel.ts'']
     = Inr ''db.run(UPDATE budgets SET spent = 1); emitEvent(budget);''"
  by (simp add: fs_eval passing_tree_def)

lemma passing_tree_hits:
  "ghost_hits ''db.run(UPDATE budgets SET spent = 1); emitEvent(budget);'' = []"
  by (simp add: scan_eval)

lemma passing_tree_scan:
  "scan_for_ghost_state passing_tree w = (Inr (), w\<lparr>stdout := stdout w @ [ghost_ok_msg]\<rparr>)"
  by (simp add: scan_for_ghost_state_cases passing_tree_located passing_tree_read
      passing_tree_hits)

lemma passing_tree_apply:
  "apply_migrations (stub_engine trig b) ''/repo'' passing_tree [[''migrations'', ''001_init.sql'']] w
     = (Inr (), w)"
  by (simp add: read_file_def passing_tree_def stub_engine_def)

lemma stub_require:
  "require_immutable_table (stub_engine (\<lambda>t. both_triggers) b) table w
     = (Inr (), w\<lparr>stdout := stdout w @ [immutable_ok_msg table]\<rparr>)"
  by (simp add: require_immutable_table_def Let_def both_triggers_blob stub_engine_def print_def)

lemma stub_execute:
  "execute (stub_engine trig b) db sql params =
     (if b \<and> (startswith sql ''UPDATE'' \<or> startswith sql ''DELETE'')
      then RaisesDatabaseError ''append-only'' else Done, ())"
  by (simp add: stub_engine_def)

lemma stub_conn_execute:
  "conn_execute (stub_engine trig b) sql params w =
     (if b \<and> (startswith sql ''UPDATE'' \<or> startswith sql ''DELETE'')
      then Inl (DatabaseError ''append-only'') else Inr (),
      w\<lparr>executed := executed w @ [(sql, params)]\<rparr>)"
  by (simp add: conn_execute_def stub_engine_def Let_def)

lemma stub_fresh_world:
  "fresh_world (stub_engine trig b) = \<lparr>conn_db = (), stdout = [], executed = []\<rparr>"
  by (simp add: fresh_world_def stub_engine_def)

lemma passing_run:
  "run_guardian (stub_engine (\<lambda>t. both_triggers) True) ''/repo'' passing_tree 1700000000
     = (Inr (), \<lparr>conn_db = (), stdout = passing_output passing_tree,
                 executed = guardian_statements 1700000000\<rparr>)"
  by (simp add: run_guardian_def main_def seq_def print_def lift_def raise_def stub_fresh_world
      passing_tree_migrations passing_tree_apply stub_require passing_tree_scan
      stub_conn_execute Let_def
      seed_actor_def insert_event_def insert_receipt_def prove_immutable_by_writes_def
      assert_blocked_def sql_update_self_def sql_delete_by_pk_def
      sql_insert_user_def sql_insert_agent_def sql_insert_event_def sql_insert_receipt_def
      sql_lines_def passing_output_def guardian_statements_def passing_tree_located
      del: apply_migrations.simps)

section \<open>The matcher finds what the patterns match\<close>

lemma rx_match_bounds: "rx_match ic s r i j \<Longrightarrow> i \<le> j \<and> j \<le> length s"
  by (induction rule: rx_match.induct) auto

lemma take_if_cursor_at:
  assumes "i \<le> length s"
  shows "take_if P (cursor_at s i) = (if i < length s \<and> P (s ! i) then [cursor_at s (Suc i)] else [])"
proof (cases "i < length s")
  case True
  then have "drop i s = s ! i # drop (Suc i) s"
    by (simp add: Cons_nth_drop_Suc)
  with True show ?thesis
    by (simp add: cursor_at_def)
next
  case False
  with assms show ?thesis
    by (simp add: cursor_at_def)
qed

lemma cursor_at_rest_less:
  "i \<le> length s \<Longrightarrow> k \<le> length s \<Longrightarrow>
   length (cur_rest (cursor_at s k)) < length (cur_rest (cursor_at s i)) \<longleftrightarrow> i < k"
  by (auto simp: cursor_at_def)

lemma cursor_at_inj: "i \<le> length s \<Longrightarrow> cursor_at s i = cursor_at s j \<Longrightarrow> i = j"
  by (auto simp: cursor_at_def)

lemma ends_sound:
  "x \<in> set (ends ic r cur) \<Longrightarrow> cur = cursor_at s i \<Longrightarrow> i \<le> length s \<Longrightarrow>
     \<exists>j. x = cursor_at s j \<and> rx_match ic s r i j"
proof (induction ic r cur arbitrary: x i rule: ends.induct)
  case (1 ic c cur)
  then show ?case
    by (auto simp: ends.simps take_if_cursor_at chr_match_def intro!: rx_match.intros
        split: if_splits)
next
  case (2 ic cs cur)
  then show ?case
    by (auto simp: ends.simps take_if_cursor_at intro!: rx_match.intros split: if_splits)
next
  case (3 ic cur)
  then show ?case
    by (auto simp: ends.simps take_if_cursor_at intro!: rx_match.intros split: if_splits)
next
  case (4 ic cur)
  then show ?case
    by (auto simp: ends.simps take_if_cursor_at intro!: rx_match.intros split: if_splits)
next
  case (5 ic cur)
  then show ?case
    by (auto simp: ends.simps intro!: rx_match.intros split: if_splits)
next
  case (6 ic cur)
  then show ?case
    by (auto simp: ends.simps intro!: rx_match.intros)
next
  case (7 ic r1 r2 cur)
  from "7.prems" obtain y where y: "y \<in> set (ends ic r1 cur)" and x: "x \<in> set (ends ic r2 y)"
    by (auto simp: ends.simps(7))
  from "7.IH"(1) [OF y "7.prems"(2,3)] obtain k where k: "y = cursor_at s k" "rx_match ic s r1 i k"
    by auto
  from rx_match_bounds [OF k(2)] have "k \<le> length s" by simp
  from "7.IH"(2) [OF y x k(1) this] obtain j where "x = cursor_at s j" "rx_match ic s r2 k j"
    by auto
  with k show ?case by (auto intro: rx_match.intros)
next
  case (8 ic r1 r2 cur)
  from "8.prems"(1) have "x \<in> set (ends ic r1 cur) \<or> x \<in> set (ends ic r2 cur)"
    by (auto simp: ends.simps(8))
  then show ?case
  proof
    assume "x \<in> set (ends ic r1 cur)"
    from "8.IH"(1) [OF this "8.prems"(2,3)] show ?thesis
      by (auto intro: rx_match.intros)
  next
    assume "x \<in> set (ends ic r2 cur)"
    from "8.IH"(2) [OF this "8.prems"(2,3)] show ?thesis
      by (auto intro: rx_match.intros)
  qed
next
  case (9 ic r cur)
  show ?case
  proof (cases "x = cur")
    case True
    with "9.prems" show ?thesis by (auto intro: rx_match.intros)
  next
    case False
    from "9.prems"(1)
    have "x \<in> set (concat (map (\<lambda>c'. if length (cur_rest c') < length (cur_rest cur)
                                     then ends ic (Star r) c' else []) (ends ic r cur)) @ [cur])"
      by (subst (asm) ends.simps(9))
    with False obtain y where y: "y \<in> set (ends ic r cur)"
      and shorter: "length (cur_rest y) < length (cur_rest cur)"
      and x: "x \<in> set (ends ic (Star r) y)"
      by (auto split: if_splits)
    from "9.IH"(1) [OF y "9.prems"(2,3)] obtain k where k: "y = cursor_at s k" "rx_match ic s r i k"
      by auto
    from rx_match_bounds [OF k(2)] have kl: "k \<le> length s" by simp
    from "9.IH"(2) [OF y shorter x k(1) kl] obtain j
      where "x = cursor_at s j" "rx_match ic s (Star r) k j"
      by auto
    with k show ?thesis by (auto intro: rx_match.intros)
  qed
next
  case (10 ic r cur)
  from "10.prems"(1) have "x \<in> set (ends ic r cur)"
    by (simp add: ends.simps(10))
  from "10.IH" [OF this "10.prems"(2,3)] show ?case
    by (auto intro: rx_match.intros)
qed

lemma ends_complete:
  "rx_match ic s r i j \<Longrightarrow> cursor_at s j \<in> set (ends ic r (cursor_at s i))"
proof (induction rule: rx_match.induct)
  case (m_lit i c)
  then show ?case by (simp add: ends.simps take_if_cursor_at chr_match_def)
next
  case (m_notin i cs)
  then show ?case by (simp add: ends.simps take_if_cursor_at)
next
  case (m_any i)
  then show ?case by (simp add: ends.simps take_if_cursor_at)
next
  case (m_space i)
  then show ?case by (simp add: ends.simps take_if_cursor_at)
next
  case (m_wordb i)
  then show ?case by (simp add: ends.simps)
next
  case (m_eps i)
  then show ?case by (simp add: ends.simps)
next
  case (m_seq r1 i k r2 j)
  then show ?case by (auto simp: ends.simps(7))
next
  case (m_alt1 r1 i j r2)
  then show ?case by (simp add: ends.simps(8))
next
  case (m_alt2 r2 i j r1)
  then show ?case by (simp add: ends.simps(8))
next
  case (m_star0 i r)
  show ?case by (subst ends.simps(9)) simp
next
  case (m_star r i k j)
  from rx_match_bounds [OF m_star.hyps(1)] rx_match_bounds [OF m_star.hyps(2)]
  have b: "i \<le> k" "k \<le> length s" "i \<le> length s" by auto
  show ?case
  proof (cases "i < k")
    case True
    with b have "length (cur_rest (cursor_at s k)) < length (cur_rest (cursor_at s i))"
      by (simp add: cursor_at_rest_less)
    with m_star.IH show ?thesis
      by (subst ends.simps(9)) (auto intro!: bexI [of _ "cursor_at s k"])
  next
    case False
    with b have "k = i" by simp
    with m_star.IH show ?thesis by simp
  qed
next
  case (m_group r i j)
  then show ?case by (simp add: ends.simps(10))
qed

lemma ends_iff:
  assumes "i \<le> length s"
  shows "x \<in> set (ends ic r (cursor_at s i)) \<longleftrightarrow> (\<exists>j. x = cursor_at s j \<and> rx_match ic s r i j)"
  using assms ends_sound [of x ic r "cursor_at s i" s i] ends_complete [of ic s r i]
  by auto




section \<open>The statements the Scanner's pattern matches\<close>

















section \<open>Migration discovery\<close>

lemma sorted_paths_Nil: "sorted_paths repo_root [] = []"
  by (simp add: sorted_paths_def)

lemma sorted_paths_eq_Nil: "sorted_paths repo_root ps = [] \<longleftrightarrow> ps = []"
proof -
  have "length (sorted_paths repo_root ps) = length ps"
    by (simp add: sorted_paths_def)
  then show ?thesis
    by (metis length_0_conv)
qed

lemma glob_sql_absent: "\<not> path_exists root c \<Longrightarrow> glob_sql root c = []"
  by (simp add: path_exists_def glob_sql_def)

lemma collect_sql_concat:
  "collect_sql repo_root root cs acc =
     acc @ concat (map (\<lambda>c. sorted_paths repo_root (glob_sql root c)) cs)"
proof (induction cs arbitrary: acc)
  case Nil
  show ?case by simp
next
  case (Cons c cs)
  show ?case
  proof (cases "path_exists root c")
    case True
    then show ?thesis by (simp add: Cons.IH)
  next
    case False
    then have "glob_sql root c = []" by (rule glob_sql_absent)
    with False show ?thesis by (simp add: Cons.IH sorted_paths_Nil)
  qed
qed

text \<open>
  C1, as amended. Migration discovery returns the concatenation, in candidate priority
  order, of the sorted \<open>.sql\<close> files of every candidate directory (the files of a later
  directory follow those of an earlier one); it fails with the NotFound exit exactly when
  no candidate directory yields a file.
\<close>

theorem find_sql_migrations_concat:
  "find_sql_migrations repo_root root =
     (if \<forall>c \<in> set candidates. glob_sql root c = []
      then Inl (SystemExit not_found_msg)
      else Inr (concat (map (\<lambda>c. sorted_paths repo_root (glob_sql root c)) candidates)))"
proof -
  let ?all = "concat (map (\<lambda>c. sorted_paths repo_root (glob_sql root c)) candidates)"
  have all: "collect_sql repo_root root candidates [] = ?all"
    by (simp add: collect_sql_concat)
  have "?all = [] \<longleftrightarrow> (\<forall>c \<in> set candidates. glob_sql root c = [])"
    by (simp add: sorted_paths_eq_Nil)
  with all show ?thesis
    by (simp add: find_sql_migrations_def Let_def)
qed

theorem find_sql_migrations_concat_witness:
  "find_sql_migrations ''/repo'' two_dirs_tree =
     Inr [[''migrations'', ''001_a.sql''], [''migrations'', ''002_b.sql''],
          [''db'', ''migrations'', ''000_c.sql'']]"
  using find_sql_migrations_concat [of "''/repo''" two_dirs_tree]
  by (simp add: candidates_def two_dirs_tree_def glob_sql_def fnmatch_sql_def endswith_def
      sorted_paths_def path_str_def)

text \<open>
  The claim as stated (only the first non-empty candidate directory supplies files) fails
  on a tree with files in both \<open>migrations/\<close> and \<open>db/migrations/\<close>: the code returns
  all three files, the stated contract only the first two.
\<close>

theorem find_sql_migrations_merges_counterexample:
  "find_sql_migrations ''/repo'' two_dirs_tree \<noteq> first_nonempty_sql ''/repo'' two_dirs_tree"
  by (simp add: find_sql_migrations_def first_nonempty_sql_def candidates_def two_dirs_tree_def
      glob_sql_def fnmatch_sql_def endswith_def sorted_paths_def path_str_def path_exists_def)

section \<open>The Immutability Verifier\<close>

lemma lower_char_lower: "\<forall>c \<in> set ascii_lower. lower_char c = c \<and> of_char c < (192::nat)"
  by (simp add: ascii_lower_def ascii_upper_def lower_char_def)

lemma lower_char_upper: "\<forall>p \<in> set (zip ascii_upper ascii_lower). lower_char (fst p) = snd p"
  by (simp add: ascii_lower_def ascii_upper_def lower_char_def)

lemma lower_char_eq_iff:
  assumes c: "c \<in> set ascii_lower"
  shows "lower_char d = c \<longleftrightarrow> same_letter d c"
proof
  assume l: "lower_char d = c"
  show "same_letter d c"
  proof (cases "map_of (zip ascii_upper ascii_lower) d")
    case (Some e)
    with l have "e = c" by (simp add: lower_char_def)
    with Some have "(d, c) \<in> set (zip ascii_upper ascii_lower)"
      by (auto dest: map_of_SomeD)
    then show ?thesis by (simp add: same_letter_def)
  next
    case None
    show ?thesis
    proof (cases "192 \<le> (of_char d :: nat) \<and> (of_char d :: nat) \<le> 222 \<and> (of_char d :: nat) \<noteq> 215")
      case True
      with None l have "c = char_of ((of_char d :: nat) + 32)"
        by (simp add: lower_char_def Let_def)
      then have "(of_char c :: nat) = ((of_char d :: nat) + 32) mod 256"
        by simp
      with True have "(of_char c :: nat) \<ge> 192" by auto
      with c lower_char_lower show ?thesis by force
    next
      case False
      with None l have "d = c" by (auto simp: lower_char_def Let_def)
      then show ?thesis by (simp add: same_letter_def)
    qed
  qed
next
  assume "same_letter d c"
  then show "lower_char d = c"
    using c lower_char_lower lower_char_upper by (force simp: same_letter_def)
qed

lemma lower_eq_iff:
  assumes "set tok \<subseteq> set ascii_lower"
  shows "lower mid = tok \<longleftrightarrow> list_all2 same_letter mid tok"
  using assms
proof (induction mid arbitrary: tok)
  case Nil
  then show ?case by (auto simp: lower_def)
next
  case (Cons d mid)
  then show ?case
    by (cases tok) (auto simp: lower_def lower_char_eq_iff)
qed

lemma occurs_in_lower_iff:
  assumes "set tok \<subseteq> set ascii_lower"
  shows "occurs_in tok (lower s) \<longleftrightarrow> ci_occurs tok s"
proof
  assume "occurs_in tok (lower s)"
  then obtain pre post where "map lower_char s = pre @ tok @ post"
    by (auto simp: occurs_in_def lower_def)
  then obtain a r where a: "s = a @ r" "map lower_char r = tok @ post"
    by (metis map_eq_append_conv)
  then obtain b c where "r = b @ c" "map lower_char b = tok"
    by (metis map_eq_append_conv)
  with a have "s = a @ b @ c" "map lower_char b = tok"
    by simp_all
  with assms show "ci_occurs tok s"
    unfolding ci_occurs_def using lower_eq_iff [of tok b] by (auto simp: lower_def)
next
  assume "ci_occurs tok s"
  then obtain pre mid post where s: "s = pre @ mid @ post" and m: "list_all2 same_letter mid tok"
    by (auto simp: ci_occurs_def)
  from m assms have "lower mid = tok" by (simp add: lower_eq_iff)
  with s have "lower s = lower pre @ tok @ lower post"
    by (simp add: lower_def)
  then show "occurs_in tok (lower s)"
    unfolding occurs_in_def by blast
qed

lemma newline_no_letter: "\<forall>p \<in> set (zip ascii_upper ascii_lower). fst p \<noteq> CHR 0x0A \<and> snd p \<noteq> CHR 0x0A"
  by (simp add: ascii_lower_def ascii_upper_def)

lemma same_letter_newline: "c \<in> set ascii_lower \<Longrightarrow> \<not> same_letter (CHR 0x0A) c"
proof
  assume c: "c \<in> set ascii_lower" and s: "same_letter (CHR 0x0A) c"
  have "length ascii_upper = length ascii_lower"
    by (simp add: ascii_lower_def ascii_upper_def)
  with c obtain u where "(u, c) \<in> set (zip ascii_upper ascii_lower)"
    by (metis in_set_impl_in_set_zip2)
  with newline_no_letter have "c \<noteq> CHR 0x0A" by force
  with s have "(CHR 0x0A, c) \<in> set (zip ascii_upper ascii_lower)"
    by (auto simp: same_letter_def)
  with newline_no_letter show False by force
qed

lemma ci_occurs_Nil: "tok \<noteq> [] \<Longrightarrow> \<not> ci_occurs tok []"
  by (auto simp: ci_occurs_def)

lemma ci_occurs_sep:
  assumes tok: "set tok \<subseteq> set ascii_lower"
  shows "ci_occurs tok (a @ CHR 0x0A # b) \<longleftrightarrow> ci_occurs tok a \<or> ci_occurs tok b"
proof
  assume "ci_occurs tok (a @ CHR 0x0A # b)"
  then obtain pre mid post where eq: "a @ CHR 0x0A # b = pre @ mid @ post"
    and m: "list_all2 same_letter mid tok"
    by (auto simp: ci_occurs_def)
  have nl: "CHR 0x0A \<notin> set mid"
  proof
    assume "CHR 0x0A \<in> set mid"
    then obtain k where k: "k < length mid" "mid ! k = CHR 0x0A"
      by (auto simp: in_set_conv_nth)
    with m have "same_letter (CHR 0x0A) (tok ! k)" "k < length tok"
      by (auto simp: list_all2_conv_all_nth)
    with tok same_letter_newline [of "tok ! k"] show False
      by (auto simp: subset_iff)
  qed
  from eq have "a @ (CHR 0x0A # b) = (pre @ mid) @ post" by simp
  then have "\<exists>us. (a = (pre @ mid) @ us \<and> us @ CHR 0x0A # b = post)
                            \<or> (a @ us = pre @ mid \<and> CHR 0x0A # b = us @ post)"
    by (simp only: append_eq_append_conv2)
  then obtain us where us: "(a = (pre @ mid) @ us \<and> us @ CHR 0x0A # b = post)
                            \<or> (a @ us = pre @ mid \<and> CHR 0x0A # b = us @ post)" ..
  show "ci_occurs tok a \<or> ci_occurs tok b"
  proof (cases "a = (pre @ mid) @ us \<and> us @ CHR 0x0A # b = post")
    case True
    then have "a = pre @ mid @ us" by simp
    with m show ?thesis unfolding ci_occurs_def by blast
  next
    case False
    with us have c2: "a @ us = pre @ mid" "CHR 0x0A # b = us @ post" by auto
    show ?thesis
    proof (cases us)
      case Nil
      with c2 have "a = pre @ mid @ []" by simp
      with m show ?thesis unfolding ci_occurs_def by blast
    next
      case (Cons u us')
      with c2 have u: "u = CHR 0x0A" "b = us' @ post" by auto
      from c2(1) Cons u have "a @ (CHR 0x0A # us') = pre @ mid" by simp
      then have "\<exists>vs. (a = pre @ vs \<and> vs @ CHR 0x0A # us' = mid)
                            \<or> (a @ vs = pre \<and> CHR 0x0A # us' = vs @ mid)"
        by (simp only: append_eq_append_conv2)
      then obtain vs where vs: "(a = pre @ vs \<and> vs @ CHR 0x0A # us' = mid)
                            \<or> (a @ vs = pre \<and> CHR 0x0A # us' = vs @ mid)" ..
      show ?thesis
      proof (cases "a = pre @ vs \<and> vs @ CHR 0x0A # us' = mid")
        case True
        then have "CHR 0x0A \<in> set mid" by auto
        with nl show ?thesis by simp
      next
        case False
        with vs have c3: "a @ vs = pre" "CHR 0x0A # us' = vs @ mid" by auto
        show ?thesis
        proof (cases vs)
          case Nil
          with c3 have "mid = CHR 0x0A # us'" by simp
          then have "CHR 0x0A \<in> set mid" by simp
          with nl show ?thesis by simp
        next
          case (Cons v vs')
          with c3 have "us' = vs' @ mid" by simp
          with u have "b = vs' @ mid @ post" by simp
          with m show ?thesis unfolding ci_occurs_def by blast
        qed
      qed
    qed
  qed
next
  assume "ci_occurs tok a \<or> ci_occurs tok b"
  then show "ci_occurs tok (a @ CHR 0x0A # b)"
  proof
    assume "ci_occurs tok a"
    then obtain pre mid post where "a = pre @ mid @ post" "list_all2 same_letter mid tok"
      by (auto simp: ci_occurs_def)
    then have "a @ CHR 0x0A # b = pre @ mid @ (post @ CHR 0x0A # b)" by simp
    with \<open>list_all2 same_letter mid tok\<close> show ?thesis
      unfolding ci_occurs_def by blast
  next
    assume "ci_occurs tok b"
    then obtain pre mid post where "b = pre @ mid @ post" "list_all2 same_letter mid tok"
      by (auto simp: ci_occurs_def)
    then have "a @ CHR 0x0A # b = (a @ CHR 0x0A # pre) @ mid @ post" by simp
    with \<open>list_all2 same_letter mid tok\<close> show ?thesis
      unfolding ci_occurs_def by blast
  qed
qed

lemma join_Cons2: "join sep (y # z # zs) = y @ sep @ join sep (z # zs)"
  by (simp add: join_def)

lemma ci_occurs_join:
  assumes tok: "set tok \<subseteq> set ascii_lower" "tok \<noteq> []"
  shows "ci_occurs tok (join [CHR 0x0A] bodies) \<longleftrightarrow> (\<exists>b \<in> set bodies. ci_occurs tok b)"
proof (cases bodies)
  case Nil
  with tok show ?thesis by (simp add: join_def ci_occurs_Nil)
next
  case (Cons y ys)
  have "ci_occurs tok (join [CHR 0x0A] (y # ys))
          \<longleftrightarrow> ci_occurs tok y \<or> (\<exists>b \<in> set ys. ci_occurs tok b)" for y
  proof (induction ys arbitrary: y)
    case Nil
    show ?case by (simp add: join_def)
  next
    case (Cons z zs)
    have "ci_occurs tok (join [CHR 0x0A] (y # z # zs))
            \<longleftrightarrow> ci_occurs tok (y @ CHR 0x0A # join [CHR 0x0A] (z # zs))"
      by (simp add: join_Cons2)
    also have "\<dots> \<longleftrightarrow> ci_occurs tok y \<or> ci_occurs tok (join [CHR 0x0A] (z # zs))"
      by (rule ci_occurs_sep [OF tok(1)])
    also have "\<dots> \<longleftrightarrow> ci_occurs tok y \<or> (ci_occurs tok z \<or> (\<exists>b \<in> set zs. ci_occurs tok b))"
      by (simp only: Cons.IH)
    finally show ?case
      by simp
  qed
  with Cons show ?thesis
    by simp
qed

lemma contains_blob_iff:
  assumes tok: "set tok \<subseteq> set ascii_lower" "tok \<noteq> []"
  shows "contains (sql_blob_of triggers) tok \<longleftrightarrow> mentions triggers tok"
proof -
  have "contains (sql_blob_of triggers) tok
          \<longleftrightarrow> occurs_in tok (lower (join [CHR 0x0A] (trigger_bodies triggers)))"
    by (simp add: contains_iff_occurs_in sql_blob_of_def trigger_bodies_def)
  also have "\<dots> \<longleftrightarrow> ci_occurs tok (join [CHR 0x0A] (trigger_bodies triggers))"
    by (rule occurs_in_lower_iff [OF tok(1)])
  also have "\<dots> \<longleftrightarrow> (\<exists>b \<in> set (trigger_bodies triggers). ci_occurs tok b)"
    by (rule ci_occurs_join [OF tok])
  also have "\<dots> \<longleftrightarrow> mentions triggers tok"
  proof
    assume "\<exists>b \<in> set (trigger_bodies triggers). ci_occurs tok b"
    then obtain t where t: "t \<in> set triggers"
      "ci_occurs tok (case snd t of None \<Rightarrow> [] | Some sql \<Rightarrow> sql)"
      by (auto simp: trigger_bodies_def)
    with tok(2) obtain sql where "snd t = Some sql" "ci_occurs tok sql"
      by (cases "snd t") (auto simp: ci_occurs_Nil)
    with t show "mentions triggers tok"
      unfolding mentions_def by blast
  next
    assume "mentions triggers tok"
    then obtain t sql where "t \<in> set triggers" "snd t = Some sql" "ci_occurs tok sql"
      by (auto simp: mentions_def)
    then have "sql \<in> set (trigger_bodies triggers)"
      by (force simp: trigger_bodies_def)
    with \<open>ci_occurs tok sql\<close> show "\<exists>b \<in> set (trigger_bodies triggers). ci_occurs tok b" ..
  qed
  finally show ?thesis .
qed

lemma blob_eval:
  "contains (sql_blob_of update_trigger_only) ''update''"
  "\<not> contains (sql_blob_of update_trigger_only) ''delete''"
  "contains (sql_blob_of update_trigger_only) ''raise''"
  "\<not> contains (sql_blob_of delete_trigger_only) ''update''"
  "contains (sql_blob_of delete_trigger_only) ''delete''"
  "contains (sql_blob_of silent_triggers) ''update''"
  "contains (sql_blob_of silent_triggers) ''delete''"
  "\<not> contains (sql_blob_of silent_triggers) ''raise''"
  "\<not> contains (sql_blob_of silent_triggers) ''abort''"
  by (simp_all add: sql_blob_of_def update_trigger_only_def delete_trigger_only_def
      silent_triggers_def join_def lower_def lower_char_ascii)

lemma stub_require_eval:
  "require_immutable_table (stub_engine (\<lambda>t. update_trigger_only) b) table w
     = (Inl (SystemExit (not_immutable_msg table)), w)"
  "require_immutable_table (stub_engine (\<lambda>t. delete_trigger_only) b) table w
     = (Inl (SystemExit (not_immutable_msg table)), w)"
  "require_immutable_table (stub_engine (\<lambda>t. silent_triggers) b) table w
     = (Inl (SystemExit (not_immutable_msg table)), w)"
  by (simp_all add: require_immutable_table_def Let_def blob_eval stub_engine_def raise_def)

text \<open>
  C6. For a protected table the Verifier takes the trigger rows registered against it and
  looks for three kinds of token in their SQL texts, joined by line breaks and with the
  case of letters set aside: \<open>update\<close>, \<open>delete\<close>, and one of \<open>raise\<close> and \<open>abort\<close>.
  A token is in the joined text exactly when it is in the text of one of the triggers,
  in any mix of capitals and small letters. When all three kinds are present the Verifier
  prints its \<open>[OK]\<close> line and returns; when any one is missing it raises the
  ImmutabilityViolation exit, whose message names the table, and prints nothing.
\<close>

theorem require_immutable_table_outcome:
  fixes eng :: "'db engine" and w :: "'db world" and table :: string
  defines "rows \<equiv> trigger_rows eng (conn_db w) table"
  shows "require_immutable_table eng table w =
           (if mentions rows ''update'' \<and> mentions rows ''delete''
               \<and> (mentions rows ''raise'' \<or> mentions rows ''abort'')
            then (Inr (), w\<lparr>stdout := stdout w
                     @ [''[OK] '' @ table @ '' appears DB-immutable (triggers present).'']\<rparr>)
            else (Inl (SystemExit (''[FAIL] '' @ table
                     @ '' is not DB-immutable. Missing triggers blocking UPDATE/DELETE with RAISE/ABORT.'')),
                  w))"
proof -
  have toks: "contains (sql_blob_of rows) ''update'' \<longleftrightarrow> mentions rows ''update''"
    "contains (sql_blob_of rows) ''delete'' \<longleftrightarrow> mentions rows ''delete''"
    "contains (sql_blob_of rows) ''raise'' \<longleftrightarrow> mentions rows ''raise''"
    "contains (sql_blob_of rows) ''abort'' \<longleftrightarrow> mentions rows ''abort''"
    by (rule contains_blob_iff; simp add: ascii_lower_def)+
  show ?thesis
    by (simp add: require_immutable_table_def Let_def toks rows_def [symmetric] raise_def
        print_def immutable_ok_msg_def not_immutable_msg_def)
qed

theorem require_immutable_table_outcome_witness:
  "require_immutable_table (stub_engine (\<lambda>t. both_triggers) True) ''events''
       \<lparr>conn_db = (), stdout = [], executed = []\<rparr>
     = (Inr (), \<lparr>conn_db = (),
                 stdout = [''[OK] events appears DB-immutable (triggers present).''],
                 executed = []\<rparr>)
   \<and> mentions both_triggers ''update'' \<and> mentions both_triggers ''delete''
   \<and> (mentions both_triggers ''raise'' \<or> mentions both_triggers ''abort'')
   \<and> require_immutable_table (stub_engine (\<lambda>t. update_trigger_only) True) ''receipts''
         \<lparr>conn_db = (), stdout = [], executed = []\<rparr>
       = (Inl (SystemExit ''[FAIL] receipts is not DB-immutable. Missing triggers blocking UPDATE/DELETE with RAISE/ABORT.''),
          \<lparr>conn_db = (), stdout = [], executed = []\<rparr>)
   \<and> \<not> mentions delete_trigger_only ''update''
   \<and> \<not> (mentions silent_triggers ''raise'' \<or> mentions silent_triggers ''abort'')"
proof -
  let ?w = "\<lparr>conn_db = (), stdout = [], executed = []\<rparr> :: unit world"
  let ?both = "stub_engine (\<lambda>t. both_triggers) True"
  let ?upd = "stub_engine (\<lambda>t. update_trigger_only) True"
  let ?del = "stub_engine (\<lambda>t. delete_trigger_only) True"
  let ?sil = "stub_engine (\<lambda>t. silent_triggers) True"
  have rows: "trigger_rows (stub_engine trig b) db table = trig table" for trig b db table
    by (simp add: stub_engine_def)
  have e1: "require_immutable_table ?both ''events'' ?w
              = (Inr (), \<lparr>conn_db = (),
                 stdout = [''[OK] events appears DB-immutable (triggers present).''],
                 executed = []\<rparr>)"
    by (simp add: stub_require immutable_ok_msg_def)
  have e2: "require_immutable_table ?upd ''receipts'' ?w
              = (Inl (SystemExit ''[FAIL] receipts is not DB-immutable. Missing triggers blocking UPDATE/DELETE with RAISE/ABORT.''), ?w)"
    by (simp add: stub_require_eval not_immutable_msg_def)
  have c1: "mentions both_triggers ''update'' \<and> mentions both_triggers ''delete''
              \<and> (mentions both_triggers ''raise'' \<or> mentions both_triggers ''abort'')"
  proof (rule ccontr)
    assume "\<not> (mentions both_triggers ''update'' \<and> mentions both_triggers ''delete''
              \<and> (mentions both_triggers ''raise'' \<or> mentions both_triggers ''abort''))"
    with require_immutable_table_outcome [of ?both "''events''" ?w]
    have "\<exists>e w'. require_immutable_table ?both ''events'' ?w = (Inl e, w')"
      unfolding rows by (simp only: if_False) blast
    with e1 show False by simp
  qed
  have c3: "\<not> mentions delete_trigger_only ''update''"
  proof
    assume "mentions delete_trigger_only ''update''"
    then have "contains (sql_blob_of delete_trigger_only) ''update''"
      by (subst contains_blob_iff) (simp_all add: ascii_lower_def)
    with blob_eval show False by simp
  qed
  have c4: "\<not> (mentions silent_triggers ''raise'' \<or> mentions silent_triggers ''abort'')"
  proof
    assume "mentions silent_triggers ''raise'' \<or> mentions silent_triggers ''abort''"
    then have "contains (sql_blob_of silent_triggers) ''raise''
               \<or> contains (sql_blob_of silent_triggers) ''abort''"
      by (auto simp: contains_blob_iff ascii_lower_def)
    with blob_eval show False by simp
  qed
  from e1 e2 c1 c3 c4 show ?thesis by blast
qed

section \<open>The Ghost-State Scanner: outcome\<close>

text \<open>
  C7, as amended. The scan target is the first of the three fixed candidate locations that
  exists. When none exists the Scanner prints its warning and returns: the run does not
  fail at this step. A located target that cannot be read as UTF-8 text (a directory, or
  bytes that do not decode) ends the run with the uncaught error of the read, and no
  finding is produced. A located target that is read and gives no finding prints the
  \<open>[OK]\<close> line and the run goes on. A located target that is read and gives at least
  one finding ends the run with the ghost-state exit, after the \<open>[FAIL]\<close> header and one
  line for each of the first 25 findings at most, the line holding the matched text, the
  table and the character offset. So the Scanner fails the run exactly when the target is
  located and either cannot be read or gives a finding.
\<close>

theorem scan_for_ghost_state_outcome:
  fixes w :: "'db world"
  shows "scan_for_ghost_state root w =
           (case located root of
              None \<Rightarrow> (Inr (), w\<lparr>stdout := stdout w @ [ghost_warn_msg]\<rparr>)
            | Some p \<Rightarrow>
                (case read_file root p of
                   Inl e \<Rightarrow> (Inl e, w)
                 | Inr src \<Rightarrow>
                     if ghost_hits src = []
                     then (Inr (), w\<lparr>stdout := stdout w @ [ghost_ok_msg]\<rparr>)
                     else (Inl (SystemExit ghost_fail_msg),
                           w\<lparr>stdout := stdout w @ ghost_fail_header
                                          # map hit_line (take 25 (ghost_hits src))\<rparr>)))
         \<and> ((\<exists>e. fst (scan_for_ghost_state root w) = Inl e)
              \<longleftrightarrow> (\<exists>p. located root = Some p
                        \<and> ((\<exists>e. read_file root p = Inl e)
                           \<or> (\<exists>src. read_file root p = Inr src \<and> ghost_hits src \<noteq> []))))
         \<and> (fst (scan_for_ghost_state root w) = Inl (SystemExit ghost_fail_msg)
              \<longleftrightarrow> (\<exists>p src. located root = Some p \<and> read_file root p = Inr src
                            \<and> ghost_hits src \<noteq> []))
         \<and> (\<forall>hits. length (map hit_line (take 25 hits)) \<le> 25)
         \<and> (\<forall>table op pos. hit_line (table, op, pos)
               = ''  - '' @ op @ '' on '' @ table @ '' at char '' @ str_nat pos)"
proof (intro conjI allI)
  show "scan_for_ghost_state root w =
           (case located root of
              None \<Rightarrow> (Inr (), w\<lparr>stdout := stdout w @ [ghost_warn_msg]\<rparr>)
            | Some p \<Rightarrow>
                (case read_file root p of
                   Inl e \<Rightarrow> (Inl e, w)
                 | Inr src \<Rightarrow>
                     if ghost_hits src = []
                     then (Inr (), w\<lparr>stdout := stdout w @ [ghost_ok_msg]\<rparr>)
                     else (Inl (SystemExit ghost_fail_msg),
                           w\<lparr>stdout := stdout w @ ghost_fail_header
                                          # map hit_line (take 25 (ghost_hits src))\<rparr>)))"
    by (rule scan_for_ghost_state_cases)
next
  show "(\<exists>e. fst (scan_for_ghost_state root w) = Inl e)
          \<longleftrightarrow> (\<exists>p. located root = Some p
                    \<and> ((\<exists>e. read_file root p = Inl e)
                       \<or> (\<exists>src. read_file root p = Inr src \<and> ghost_hits src \<noteq> [])))"
    by (auto simp: scan_for_ghost_state_cases split: option.splits sum.splits)
next
  show "fst (scan_for_ghost_state root w) = Inl (SystemExit ghost_fail_msg)
          \<longleftrightarrow> (\<exists>p src. located root = Some p \<and> read_file root p = Inr src
                          \<and> ghost_hits src \<noteq> [])"
    by (auto simp: scan_for_ghost_state_cases read_file_not_exit split: option.splits sum.splits)
next
  fix hits :: "(string \<times> string \<times> nat) list"
  show "length (map hit_line (take 25 hits)) \<le> 25"
    by simp
next
  fix table op pos
  show "hit_line (table, op, pos) = ''  - '' @ op @ '' on '' @ table @ '' at char '' @ str_nat pos"
    by (simp add: hit_line_def)
qed

lemma ghost_tree_located: "located ghost_tree = Some [''src'', ''kernel.ts'']"
  by (simp add: fs_eval ghost_tree_def)

lemma ghost_tree_read:
  "read_file ghost_tree [''src'', ''kernel.ts''] = Inr ''db.run(INSERT INTO budgets (...));''"
  by (simp add: fs_eval ghost_tree_def)

lemma ghost_tree_hits:
  "ghost_hits ''db.run(INSERT INTO budgets (...));'' = [(''budgets'', ''INSERT INTO budgets'', 7)]"
  by (simp add: scan_eval)

lemma bare_tree_located: "located bare_tree = None"
  by (simp add: fs_eval bare_tree_def)

lemma unreadable_tree_located: "located unreadable_tree = Some [''kernel.ts'']"
  by (simp add: fs_eval unreadable_tree_def)

lemma unreadable_tree_read:
  "read_file unreadable_tree [''kernel.ts''] = Inl (OtherException ''UnicodeDecodeError'')"
  by (simp add: fs_eval unreadable_tree_def)

theorem scan_for_ghost_state_outcome_witness:
  "scan_for_ghost_state ghost_tree \<lparr>conn_db = (), stdout = [], executed = []\<rparr>
     = (Inl (SystemExit ghost_fail_msg),
        \<lparr>conn_db = (),
         stdout = [ghost_fail_header, ''  - INSERT INTO budgets on budgets at char 7''],
         executed = []\<rparr>)
   \<and> scan_for_ghost_state bare_tree \<lparr>conn_db = (), stdout = [], executed = []\<rparr>
     = (Inr (), \<lparr>conn_db = (), stdout = [ghost_warn_msg], executed = []\<rparr>)
   \<and> scan_for_ghost_state passing_tree \<lparr>conn_db = (), stdout = [], executed = []\<rparr>
     = (Inr (), \<lparr>conn_db = (), stdout = [ghost_ok_msg], executed = []\<rparr>)
   \<and> scan_for_ghost_state unreadable_tree \<lparr>conn_db = (), stdout = [], executed = []\<rparr>
     = (Inl (OtherException ''UnicodeDecodeError''),
        \<lparr>conn_db = (), stdout = [], executed = []\<rparr>)"
  using scan_for_ghost_state_outcome
          [of ghost_tree "\<lparr>conn_db = (), stdout = [], executed = []\<rparr>"]
        scan_for_ghost_state_outcome
          [of bare_tree "\<lparr>conn_db = (), stdout = [], executed = []\<rparr>"]
        scan_for_ghost_state_outcome
          [of passing_tree "\<lparr>conn_db = (), stdout = [], executed = []\<rparr>"]
        scan_for_ghost_state_outcome
          [of unreadable_tree "\<lparr>conn_db = (), stdout = [], executed = []\<rparr>"]
  by (simp add: ghost_tree_located ghost_tree_read ghost_tree_hits bare_tree_located
      passing_tree_located passing_tree_read passing_tree_hits
      unreadable_tree_located unreadable_tree_read
      hit_line_def str_nat.simps digit_char_def)

text \<open>
  The claim as stated (the Scanner fails the run only if a finding was produced) fails
  on a repository whose \<open>kernel.ts\<close> is not valid UTF-8: the target is located, the
  read raises, the run ends with exit code 1, and nothing was scanned or printed.
\<close>

theorem unreadable_target_counterexample:
  "located unreadable_tree = Some [''kernel.ts'']
   \<and> read_file unreadable_tree [''kernel.ts''] = Inl (OtherException ''UnicodeDecodeError'')
   \<and> scan_for_ghost_state unreadable_tree \<lparr>conn_db = (), stdout = [], executed = []\<rparr>
       = (Inl (OtherException ''UnicodeDecodeError''),
          \<lparr>conn_db = (), stdout = [], executed = []\<rparr>)
   \<and> exit_code (fst (scan_for_ghost_state unreadable_tree
                        \<lparr>conn_db = (), stdout = [], executed = []\<rparr>)) = 1"
  by (simp add: scan_for_ghost_state_cases unreadable_tree_located unreadable_tree_read)

section \<open>The output of a passing run\<close>

lemma passing_output_ok_lines:
  "length (filter is_ok_line (passing_output root)) = (if located root = None then 7 else 8)"
  by (simp add: passing_output_def is_ok_line_def banner_def immutable_ok_msg_def blocked_msg_def
      ghost_warn_msg_def ghost_ok_msg_def passed_msg_def)

text \<open>
  C2, as amended. A run that passes exits with code zero, and its output is, in this
  order: the banner line, the two Verifier \<open>[OK]\<close> lines (events, receipts), four
  Prover \<open>[OK]\<close> lines (UPDATE blocked and DELETE blocked, for events and then for
  receipts), the Scanner's \<open>[OK]\<close> line, or its \<open>[WARN]\<close> line when no scan target
  is located, and the closing \<open>[OK] Guardian checks passed.\<close> line. That is eight
  \<open>[OK]\<close> lines when the scan target is located and seven otherwise.
\<close>

theorem guardian_passing_output:
  assumes "fst (run_guardian eng repo_root root now) = Inr ()"
  shows "exit_code (fst (run_guardian eng repo_root root now)) = 0
         \<and> stdout (snd (run_guardian eng repo_root root now))
             = [banner,
                immutable_ok_msg ''events'', immutable_ok_msg ''receipts'',
                blocked_msg ''UPDATE on events'', blocked_msg ''DELETE on events'',
                blocked_msg ''UPDATE on receipts'', blocked_msg ''DELETE on receipts'',
                if located root = None then ghost_warn_msg else ghost_ok_msg,
                passed_msg]
         \<and> length (filter is_ok_line (stdout (snd (run_guardian eng repo_root root now))))
             = (if located root = None then 7 else 8)"
proof -
  obtain w' where run: "main eng repo_root root now (fresh_world eng) = (Inr (), w')"
    using assms by (cases "run_guardian eng repo_root root now") (simp add: run_guardian_def)
  from main_passes [OF run] have out: "stdout w' = passing_output root"
    by (simp add: fresh_world_def)
  have w': "snd (run_guardian eng repo_root root now) = w'"
    using run by (simp add: run_guardian_def)
  show ?thesis
    using assms out passing_output_ok_lines [of root]
    by (simp add: w') (simp add: passing_output_def)
qed

theorem guardian_passing_output_witness:
  "stdout (snd (run_guardian (stub_engine (\<lambda>t. both_triggers) True) ''/repo'' passing_tree
                  1700000000))
     = [''== Bloom Kernel Guardian =='',
        ''[OK] events appears DB-immutable (triggers present).'',
        ''[OK] receipts appears DB-immutable (triggers present).'',
        ''[OK] UPDATE on events blocked as expected.'',
        ''[OK] DELETE on events blocked as expected.'',
        ''[OK] UPDATE on receipts blocked as expected.'',
        ''[OK] DELETE on receipts blocked as expected.'',
        ''[OK] Ghost-state heuristic passed (no obvious unlogged mutations).'',
        ''[OK] Guardian checks passed.'']"
  using guardian_passing_output
          [of "stub_engine (\<lambda>t. both_triggers) True" "''/repo''" passing_tree 1700000000]
  by (simp add: passing_run passing_tree_located banner_def immutable_ok_msg_def blocked_msg_def
      ghost_ok_msg_def passed_msg_def)

text \<open>
  The claim as stated (exactly five \<open>[OK]\<close> lines and no other line) fails on a passing
  run: there are eight \<open>[OK]\<close> lines, four of them from the Prover, and the first line
  of the output is the banner.
\<close>

theorem guardian_five_ok_lines_counterexample:
  "exit_code (fst (run_guardian (stub_engine (\<lambda>t. both_triggers) True) ''/repo'' passing_tree
                     1700000000)) = 0
   \<and> length (filter is_ok_line
        (stdout (snd (run_guardian (stub_engine (\<lambda>t. both_triggers) True) ''/repo'' passing_tree
                        1700000000)))) = 8
   \<and> length (filter (\<lambda>l. \<not> is_ok_line l)
        (stdout (snd (run_guardian (stub_engine (\<lambda>t. both_triggers) True) ''/repo'' passing_tree
                        1700000000)))) = 1"
  by (simp add: passing_run passing_tree_located passing_output_def is_ok_line_def banner_def
      immutable_ok_msg_def blocked_msg_def ghost_ok_msg_def passed_msg_def)

section \<open>The Write-Attempt Prover\<close>

lemma prove_immutable_by_writes_result:
  fixes eng :: "'db engine" and w :: "'db world"
    and table pk_col pk_value update_col :: string
  defines "upd \<equiv> execute eng (conn_db w) (sql_update_self table update_col pk_col) [SqlText pk_value]"
  defines "del \<equiv> execute eng (snd upd) (sql_delete_by_pk table pk_col) [SqlText pk_value]"
  shows "fst (prove_immutable_by_writes eng table pk_col pk_value update_col w) =
           (case fst upd of
              Done \<Rightarrow> Inl (SystemExit (allowed_msg (''UPDATE on '' @ table)))
            | RaisesOther m \<Rightarrow> Inl (OtherException m)
            | RaisesDatabaseError m \<Rightarrow>
                (case fst del of
                   Done \<Rightarrow> Inl (SystemExit (allowed_msg (''DELETE on '' @ table)))
                 | RaisesOther m \<Rightarrow> Inl (OtherException m)
                 | RaisesDatabaseError m \<Rightarrow> Inr ()))"
  unfolding upd_def del_def
  by (auto simp: prove_immutable_by_writes_def seq_def assert_blocked_def conn_execute_def Let_def
      print_def raise_def split: prod.splits exec_result.splits)

text \<open>
  C5. An attempt passes exactly when the engine rejects the statement with a database
  error. For a table the Prover first attempts the update that writes a column to itself
  and then, if that was rejected, the delete by primary key; it passes exactly when both
  are rejected, and when one of them executes without error it stops with the
  AppendOnlyViolation exit naming the operation and the table. A passing run has executed
  both attempts against the seeded event and then against the seeded receipt.
\<close>

theorem prove_immutable_by_writes_outcome:
  fixes eng :: "'db engine" and w :: "'db world"
    and table pk_col pk_value update_col :: string
  defines "upd \<equiv> execute eng (conn_db w) (sql_update_self table update_col pk_col) [SqlText pk_value]"
  defines "del \<equiv> execute eng (snd upd) (sql_delete_by_pk table pk_col) [SqlText pk_value]"
  defines "res \<equiv> fst (prove_immutable_by_writes eng table pk_col pk_value update_col w)"
  shows "(fst (assert_blocked eng sql params label w) = Inr ()
            \<longleftrightarrow> (\<exists>m. fst (execute eng (conn_db w) sql params) = RaisesDatabaseError m))
         \<and> (res = Inr ()
              \<longleftrightarrow> (\<exists>m. fst upd = RaisesDatabaseError m) \<and> (\<exists>m. fst del = RaisesDatabaseError m))
         \<and> (fst upd = Done
              \<longrightarrow> res = Inl (SystemExit (''[FAIL] UPDATE on '' @ table
                                           @ '' was allowed; table is not append-only.'')))
         \<and> ((\<exists>m. fst upd = RaisesDatabaseError m) \<and> fst del = Done
              \<longrightarrow> res = Inl (SystemExit (''[FAIL] DELETE on '' @ table
                                           @ '' was allowed; table is not append-only.'')))
         \<and> sql_update_self table update_col pk_col
             = ''UPDATE '' @ table @ '' SET '' @ update_col @ '' = '' @ update_col
               @ '' WHERE '' @ pk_col @ '' = ?''
         \<and> sql_delete_by_pk table pk_col = ''DELETE FROM '' @ table @ '' WHERE '' @ pk_col @ '' = ?''
         \<and> (fst (run_guardian eng repo_root root now) = Inr ()
              \<longrightarrow> drop 5 (executed (snd (run_guardian eng repo_root root now)))
                  = [(sql_update_self ''events'' ''type'' ''event_id'',
                      [SqlText (''evt_guardian_'' @ str_nat now)]),
                     (sql_delete_by_pk ''events'' ''event_id'',
                      [SqlText (''evt_guardian_'' @ str_nat now)]),
                     (sql_update_self ''receipts'' ''what_happened'' ''receipt_id'',
                      [SqlText (''rcpt_guardian_'' @ str_nat now)]),
                     (sql_delete_by_pk ''receipts'' ''receipt_id'',
                      [SqlText (''rcpt_guardian_'' @ str_nat now)])])"
proof (intro conjI impI)
  show "fst (assert_blocked eng sql params label w) = Inr ()
          \<longleftrightarrow> (\<exists>m. fst (execute eng (conn_db w) sql params) = RaisesDatabaseError m)"
    by (auto simp: assert_blocked_cases Let_def split: exec_result.splits)
next
  show "res = Inr ()
          \<longleftrightarrow> (\<exists>m. fst upd = RaisesDatabaseError m) \<and> (\<exists>m. fst del = RaisesDatabaseError m)"
    unfolding res_def upd_def del_def
    by (auto simp: prove_immutable_by_writes_result split: exec_result.splits)
next
  assume "fst upd = Done"
  then show "res = Inl (SystemExit (''[FAIL] UPDATE on '' @ table
                                      @ '' was allowed; table is not append-only.''))"
    unfolding res_def upd_def del_def
    by (simp add: prove_immutable_by_writes_result allowed_msg_def)
next
  assume "(\<exists>m. fst upd = RaisesDatabaseError m) \<and> fst del = Done"
  then show "res = Inl (SystemExit (''[FAIL] DELETE on '' @ table
                                      @ '' was allowed; table is not append-only.''))"
    unfolding res_def upd_def del_def
    by (auto simp: prove_immutable_by_writes_result allowed_msg_def)
next
  show "sql_update_self table update_col pk_col
          = ''UPDATE '' @ table @ '' SET '' @ update_col @ '' = '' @ update_col
            @ '' WHERE '' @ pk_col @ '' = ?''"
    by (simp add: sql_update_self_def)
next
  show "sql_delete_by_pk table pk_col = ''DELETE FROM '' @ table @ '' WHERE '' @ pk_col @ '' = ?''"
    by (simp add: sql_delete_by_pk_def)
next
  assume pass: "fst (run_guardian eng repo_root root now) = Inr ()"
  then obtain w' where run: "main eng repo_root root now (fresh_world eng) = (Inr (), w')"
    by (cases "run_guardian eng repo_root root now") (simp add: run_guardian_def)
  from main_passes [OF run] have "executed w' = guardian_statements now"
    by (simp add: fresh_world_def)
  moreover have "snd (run_guardian eng repo_root root now) = w'"
    using run by (simp add: run_guardian_def)
  ultimately show "drop 5 (executed (snd (run_guardian eng repo_root root now)))
      = [(sql_update_self ''events'' ''type'' ''event_id'',
          [SqlText (''evt_guardian_'' @ str_nat now)]),
         (sql_delete_by_pk ''events'' ''event_id'',
          [SqlText (''evt_guardian_'' @ str_nat now)]),
         (sql_update_self ''receipts'' ''what_happened'' ''receipt_id'',
          [SqlText (''rcpt_guardian_'' @ str_nat now)]),
         (sql_delete_by_pk ''receipts'' ''receipt_id'',
          [SqlText (''rcpt_guardian_'' @ str_nat now)])]"
    by (simp add: guardian_statements_def Let_def)
qed

theorem prove_immutable_by_writes_outcome_witness:
  "fst (prove_immutable_by_writes (stub_engine (\<lambda>t. both_triggers) True) ''events'' ''event_id''
          ''evt_guardian_1'' ''type'' \<lparr>conn_db = (), stdout = [], executed = []\<rparr>) = Inr ()
   \<and> fst (prove_immutable_by_writes (stub_engine (\<lambda>t. both_triggers) False) ''events''
            ''event_id'' ''evt_guardian_1'' ''type'' \<lparr>conn_db = (), stdout = [], executed = []\<rparr>)
       = Inl (SystemExit ''[FAIL] UPDATE on events was allowed; table is not append-only.'')
   \<and> drop 5 (executed (snd (run_guardian (stub_engine (\<lambda>t. both_triggers) True) ''/repo''
                              passing_tree 1700000000)))
       = [(''UPDATE events SET type = type WHERE event_id = ?'', [SqlText ''evt_guardian_1700000000'']),
          (''DELETE FROM events WHERE event_id = ?'', [SqlText ''evt_guardian_1700000000'']),
          (''UPDATE receipts SET what_happened = what_happened WHERE receipt_id = ?'',
           [SqlText ''rcpt_guardian_1700000000'']),
          (''DELETE FROM receipts WHERE receipt_id = ?'', [SqlText ''rcpt_guardian_1700000000''])]"
  using prove_immutable_by_writes_outcome
          [where eng = "stub_engine (\<lambda>t. both_triggers) True"
             and w = "\<lparr>conn_db = (), stdout = [], executed = []\<rparr>"
             and table = "''events''" and pk_col = "''event_id''"
             and pk_value = "''evt_guardian_1''" and update_col = "''type''"
             and repo_root = "''/repo''" and root = passing_tree and now = 1700000000]
        prove_immutable_by_writes_outcome
          [where eng = "stub_engine (\<lambda>t. both_triggers) False"
             and w = "\<lparr>conn_db = (), stdout = [], executed = []\<rparr>"
             and table = "''events''" and pk_col = "''event_id''"
             and pk_value = "''evt_guardian_1''" and update_col = "''type''"]
  by (simp add: passing_run stub_execute sql_update_self_def sql_delete_by_pk_def
      guardian_statements_def str_nat.simps digit_char_def)

section \<open>The pipeline\<close>


















section \<open>The Ghost-State Scanner: what counts as a match\<close>






section \<open>The Ghost-State Scanner: which matches become findings\<close>







end
